theory Spec2Isabelle
  imports Complex_Main "HOL-Library.Word" "HOL-Library.Product_Lexorder"
begin

section \<open>Python values and errors\<close>

text \<open>
  The notebooks are Python. Every exception a modelled function can raise is a value of
  \<open>py_error\<close>; a function that can raise returns \<open>py_error + 'a\<close> with \<open>Inl\<close> the
  exception. Python and NumPy floats are idealised as exact reals throughout; the places
  where a result depends on rounding are named where they occur.
\<close>

datatype py_error =
    AssertionError
  | ZeroDivisionError
  | ValueError
  | AttributeError
  | IndexError
  | KeyError
  | CvError

definition bindE :: "'e + 'a \<Rightarrow> ('a \<Rightarrow> 'e + 'b) \<Rightarrow> 'e + 'b" where
  "bindE m f = (case m of Inl e \<Rightarrow> Inl e | Inr x \<Rightarrow> f x)"

text \<open>A list comprehension over a function that can raise: the first exception wins.\<close>

fun mapE :: "('a \<Rightarrow> 'e + 'b) \<Rightarrow> 'a list \<Rightarrow> 'e + 'b list" where
  "mapE f [] = Inr []"
| "mapE f (x # xs) =
     (case f x of
        Inl e \<Rightarrow> Inl e
      | Inr y \<Rightarrow> (case mapE f xs of Inl e \<Rightarrow> Inl e | Inr ys \<Rightarrow> Inr (y # ys)))"

text \<open>\<open>int(x)\<close> of a float truncates toward zero.\<close>

definition py_int :: "real \<Rightarrow> int" where
  "py_int x = (if 0 \<le> x then \<lfloor>x\<rfloor> else \<lceil>x\<rceil>)"

text \<open>\<open>np.round\<close> rounds to the nearest integer, a half to the even neighbour.\<close>

definition np_round :: "real \<Rightarrow> int" where
  "np_round x =
     (let f = \<lfloor>x\<rfloor>; d = x - of_int f
      in if d < 1 / 2 then f
         else if 1 / 2 < d then f + 1
         else if even f then f else f + 1)"

text \<open>
  \<open>range(i, stop, step)\<close> for a positive step, the only way the notebooks call it
  (\<open>compute_partial_slices\<close> asserts \<open>0 < frame_step\<close> before its loop).
\<close>

function py_range :: "int \<Rightarrow> int \<Rightarrow> int \<Rightarrow> int list" where
  "py_range i stop step =
     (if 0 < step \<and> i < stop then i # py_range (i + step) stop step else [])"
  by pat_completeness auto
termination
  by (relation "measure (\<lambda>(i, stop, step). nat (stop - i))") auto

declare py_range.simps [simp del]

section \<open>FreeVC notebook: partial utterances of the speaker encoder\<close>

text \<open>
  \<open>compute_partial_slices\<close> reads three constants of \<open>speaker_encoder.hparams\<close>, a
  package the notebook clones and the repository does not hold. They are a parameter of
  the model.
\<close>

record hparams =
  sampling_rate :: int
  mel_window_step :: int
  partials_n_frames :: int

definition samples_per_frame :: "hparams \<Rightarrow> int" where
  "samples_per_frame hp = py_int (of_int (sampling_rate hp * mel_window_step hp) / 1000)"

definition n_frames_of :: "hparams \<Rightarrow> int \<Rightarrow> int" where
  "n_frames_of hp n_samples = \<lceil>of_int (n_samples + 1) / (of_int (samples_per_frame hp) :: real)\<rceil>"

definition frame_step_of :: "hparams \<Rightarrow> real \<Rightarrow> int" where
  "frame_step_of hp rate =
     np_round ((of_int (sampling_rate hp) / rate) / of_int (samples_per_frame hp))"

text \<open>A Python \<open>slice(start, stop)\<close> is the pair of its bounds.\<close>

type_synonym slice = "int \<times> int"

definition mel_slices_of :: "hparams \<Rightarrow> int \<Rightarrow> int \<Rightarrow> slice list" where
  "mel_slices_of hp steps frame_step =
     map (\<lambda>i. (i, i + partials_n_frames hp)) (py_range 0 steps frame_step)"

definition wav_slices_of :: "hparams \<Rightarrow> int \<Rightarrow> int \<Rightarrow> slice list" where
  "wav_slices_of hp steps frame_step =
     map (\<lambda>i. (i * samples_per_frame hp, (i + partials_n_frames hp) * samples_per_frame hp))
       (py_range 0 steps frame_step)"

definition coverage_of :: "int \<Rightarrow> slice \<Rightarrow> real" where
  "coverage_of n_samples last_wav_range =
     of_int (n_samples - fst last_wav_range) / of_int (snd last_wav_range - fst last_wav_range)"

definition compute_partial_slices ::
  "hparams \<Rightarrow> int \<Rightarrow> real \<Rightarrow> real \<Rightarrow> py_error + (slice list \<times> slice list)" where
  "compute_partial_slices hp n_samples rate min_coverage =
     (if \<not> (0 < min_coverage \<and> min_coverage \<le> 1) then Inl AssertionError
      else if samples_per_frame hp = 0 then Inl ZeroDivisionError
      else if rate = 0 then Inl ZeroDivisionError
      else
        let n_frames = n_frames_of hp n_samples;
            frame_step = frame_step_of hp rate
        in if \<not> 0 < frame_step then Inl AssertionError
           else if \<not> frame_step \<le> partials_n_frames hp then Inl AssertionError
           else
             let steps = max 1 (n_frames - partials_n_frames hp + frame_step + 1);
                 wav_slices = wav_slices_of hp steps frame_step;
                 mel_slices = mel_slices_of hp steps frame_step
             in if wav_slices = [] then Inl IndexError
                else
                  let last_wav_range = last wav_slices
                  in if snd last_wav_range - fst last_wav_range = 0 then Inl ZeroDivisionError
                     else if coverage_of n_samples last_wav_range < min_coverage
                               \<and> length mel_slices > 1
                          then Inr (butlast wav_slices, butlast mel_slices)
                          else Inr (wav_slices, mel_slices))"

text \<open>
  The constants as \<open>speaker_encoder/hparams.py\<close> of FreeVC sets them: 16 kHz audio, a
  10 ms mel step, 160 frames to a partial utterance. They give the 1.6 s partial
  utterance and the minimum rate 0.625 that the docstring of \<open>compute_partial_slices\<close>
  names.
\<close>

definition hparams_16k :: hparams where
  "hparams_16k = \<lparr>sampling_rate = 16000, mel_window_step = 10, partials_n_frames = 160\<rparr>"






section \<open>EnCodec notebook: the demo's adaptors\<close>

text \<open>
  A tensor of the demo (a NumPy array or a torch tensor): its shape and its values in
  row-major order. The waveform Gradio hands to \<open>_compress\<close> is an int16 array.
\<close>

record 'a tensor =
  dims :: "nat list"
  vals :: "'a list"

text \<open>
  \<open>preprocess\<close>: \<open>torch.tensor(input, dtype=torch.float32)\<close>, the division by \<open>2**15\<close>,
  \<open>unsqueeze(0)\<close> and \<open>convert_audio\<close> of the \<open>encodec\<close> package, a parameter. An int16
  value and its quotient by a power of two are exact in float32.
\<close>

definition preprocess ::
  "(real tensor \<Rightarrow> int \<Rightarrow> int \<Rightarrow> int \<Rightarrow> real tensor) \<Rightarrow>
   16 word tensor \<Rightarrow> int \<Rightarrow> int \<Rightarrow> int \<Rightarrow> real tensor" where
  "preprocess convert_audio input sample_rate model_sr model_channels =
     (let input1 = \<lparr>dims = dims input, vals = map (\<lambda>w. real_of_int (sint w)) (vals input)\<rparr>;
          input2 = input1\<lparr>vals := map (\<lambda>x. x / 2 ^ 15) (vals input1)\<rparr>;
          input3 = input2\<lparr>dims := 1 # dims input2\<rparr>
      in convert_audio input3 sample_rate model_sr model_channels)"

text \<open>
  \<open>postprocess\<close>: \<open>squeeze()\<close> drops every axis of length 1, the values are multiplied by
  \<open>2**15\<close>, and \<open>astype(np.int16)\<close> truncates toward zero (a value outside int16 wraps).
\<close>

definition postprocess :: "real tensor \<Rightarrow> 16 word tensor" where
  "postprocess output =
     (let output1 = output\<lparr>dims := filter (\<lambda>d. d \<noteq> 1) (dims output)\<rparr>;
          output2 = output1\<lparr>vals := map (\<lambda>x. x * 2 ^ 15) (vals output1)\<rparr>
      in \<lparr>dims = dims output2, vals = map (\<lambda>x. word_of_int (py_int x)) (vals output2)\<rparr>)"

section \<open>The conversion cache blocks\<close>

text \<open>
  The disk is a map from paths to file contents. \<open>ov.convert_model\<close>, \<open>ov.save_model\<close>
  and \<open>core.read_model\<close> are OpenVINO's: how a model is converted, serialised and read
  back is a parameter. \<open>save_model\<close> writes the structure file at the path it is given
  and the weights file beside it.
\<close>

type_synonym path = string
type_synonym file_system = "path \<rightharpoonup> 8 word list"

record 'm openvino =
  convert_model :: "file_system \<Rightarrow> path \<Rightarrow> py_error + 'm"
  serialize :: "'m \<Rightarrow> 8 word list \<times> 8 word list"
  weights_path :: "path \<Rightarrow> path"
  read_model :: "file_system \<Rightarrow> path \<Rightarrow> py_error + 'm"

definition save_model :: "'m openvino \<Rightarrow> 'm \<Rightarrow> path \<Rightarrow> file_system \<Rightarrow> file_system" where
  "save_model ov m p fs =
     fs(p \<mapsto> fst (serialize ov m), weights_path ov p \<mapsto> snd (serialize ov m))"

text \<open>
  FreeVC notebook, the cell after the ONNX export of \<open>cmodel\<close> (the cell for \<open>smodel\<close> has
  the same shape). The block returns the disk it leaves and the model or the exception.
\<close>

definition convert_ir_cmodel ::
  "'m openvino \<Rightarrow> path \<Rightarrow> path \<Rightarrow> file_system \<Rightarrow> file_system \<times> (py_error + 'm)" where
  "convert_ir_cmodel ov onnx_cmodel_path ir_cmodel_path fs =
     (if ir_cmodel_path \<notin> dom fs then
        (case convert_model ov fs onnx_cmodel_path of
           Inl e \<Rightarrow> (fs, Inl e)
         | Inr ir_cmodel \<Rightarrow> (save_model ov ir_cmodel ir_cmodel_path fs, Inr ir_cmodel))
      else (fs, read_model ov fs ir_cmodel_path))"

text \<open>
  EnCodec notebook: here the ONNX export is inside the block. \<open>onnx_export\<close> is what
  \<open>torch.onnx.export\<close> of the encoder yields: the bytes it writes, or its exception.
\<close>

definition OV_ENCODER_PATH :: path where
  "OV_ENCODER_PATH = ''encodec_encoder.xml''"

definition convert_encoder_ov ::
  "'m openvino \<Rightarrow> py_error + 8 word list \<Rightarrow> file_system \<Rightarrow> file_system \<times> (py_error + 'm)" where
  "convert_encoder_ov ov onnx_export fs =
     (if OV_ENCODER_PATH \<notin> dom fs then
        (case onnx_export of
           Inl e \<Rightarrow> (fs, Inl e)
         | Inr onnx \<Rightarrow>
             let fs1 = fs(''encodec_encoder.onnx'' \<mapsto> onnx)
             in (case convert_model ov fs1 ''encodec_encoder.onnx'' of
                   Inl e \<Rightarrow> (fs1, Inl e)
                 | Inr encoder_ov \<Rightarrow>
                     (save_model ov encoder_ov OV_ENCODER_PATH fs1, Inr encoder_ov)))
      else (fs, read_model ov fs OV_ENCODER_PATH))"

text \<open>A stand-in for OpenVINO to run the blocks on: a model is the length of its file.\<close>

definition ov_stub :: "nat openvino" where
  "ov_stub =
     \<lparr>convert_model = (\<lambda>fs p. case fs p of None \<Rightarrow> Inl ValueError | Some b \<Rightarrow> Inr (length b)),
      serialize = (\<lambda>m. (replicate m 1, replicate m 2)),
      weights_path = (\<lambda>p. take (length p - 4) p @ ''.bin''),
      read_model = (\<lambda>fs p. case fs p of None \<Rightarrow> Inl ValueError | Some b \<Rightarrow> Inr (length b))\<rparr>"

section \<open>SlowFast notebook: preprocessing\<close>

text \<open>
  A NumPy array is its element type, its shape and its elements, \<open>elem a [i, j, ...]\<close>
  being \<open>a[i, j, ...]\<close>; what \<open>elem\<close> says at an index outside the shape means nothing.
  A frame that \<open>VideoCapture.read\<close> did not get is \<open>None\<close>.
\<close>

datatype dtype = UInt8 | Float32

record ndarray =
  dtype :: dtype
  shape :: "nat list"
  elem :: "nat list \<Rightarrow> real"

definition map_elems :: "(real \<Rightarrow> real) \<Rightarrow> ndarray \<Rightarrow> ndarray" where
  "map_elems f a = a\<lparr>elem := (\<lambda>idx. f (elem a idx))\<rparr>"

text \<open>
  \<open>cv2.resize(src, (new_width, new_height), interpolation=cv2.INTER_LINEAR)\<close> is
  OpenCV's. Its result has the size asked for and the channels of the source (a single
  channel comes back without its axis); it raises on a size that is not positive and on
  an empty source. The interpolated values are a parameter, \<open>interp\<close>.
\<close>

type_synonym interpolation = "ndarray \<Rightarrow> nat \<Rightarrow> nat \<Rightarrow> nat list \<Rightarrow> real"

definition cv2_resize :: "interpolation \<Rightarrow> ndarray \<Rightarrow> int \<Rightarrow> int \<Rightarrow> py_error + ndarray" where
  "cv2_resize interp src new_width new_height =
     (if new_width \<le> 0 \<or> new_height \<le> 0 \<or> 0 \<in> set (shape src) then Inl CvError
      else
        let values = interp src (nat new_width) (nat new_height)
        in (case shape src of
              [h, w] \<Rightarrow>
                Inr \<lparr>dtype = dtype src, shape = [nat new_height, nat new_width], elem = values\<rparr>
            | [h, w, c] \<Rightarrow>
                Inr \<lparr>dtype = dtype src,
                     shape = (if c = 1 then [nat new_height, nat new_width]
                              else [nat new_height, nat new_width, c]),
                     elem = values\<rparr>
            | _ \<Rightarrow> Inl CvError))"

definition scale_short_side :: "interpolation \<Rightarrow> int \<Rightarrow> ndarray option \<Rightarrow> py_error + ndarray" where
  "scale_short_side interp sz frame =
     (case frame of
        None \<Rightarrow> Inl AttributeError
      | Some fr \<Rightarrow>
          (case shape fr of
             height # width # rest \<Rightarrow>
               if (width \<le> height \<and> int width = sz) \<or> (height \<le> width \<and> int height = sz)
               then Inr fr
               else if width < height then
                 (if width = 0 then Inl ZeroDivisionError
                  else bindE
                    (cv2_resize interp fr sz \<lfloor>(real height / real width) * real_of_int sz\<rfloor>)
                    (\<lambda>scaled. Inr (scaled\<lparr>dtype := Float32\<rparr>)))
               else
                 (if height = 0 then Inl ZeroDivisionError
                  else bindE
                    (cv2_resize interp fr \<lfloor>(real width / real height) * real_of_int sz\<rfloor> sz)
                    (\<lambda>scaled. Inr (scaled\<lparr>dtype := Float32\<rparr>)))
           | _ \<Rightarrow> Inl IndexError))"

text \<open>
  A slice \<open>start:stop\<close> of an axis of length \<open>n\<close>, as Python reads it: a negative bound
  counts from the end, both bounds are clipped to the axis. The result is where the slice
  starts and how long it is.
\<close>

definition slice_bound :: "nat \<Rightarrow> int \<Rightarrow> int" where
  "slice_bound n k = (if k < 0 then max (k + int n) 0 else min k (int n))"

definition slice_axis :: "nat \<Rightarrow> int \<Rightarrow> int \<Rightarrow> nat \<times> nat" where
  "slice_axis n start stop =
     (nat (slice_bound n start), nat (slice_bound n stop - slice_bound n start))"

definition center_crop :: "int \<Rightarrow> ndarray \<Rightarrow> py_error + ndarray" where
  "center_crop sz frame =
     (case shape frame of
        height # width # rest \<Rightarrow>
          let y_offset = \<lceil>(real height - real_of_int sz) / 2\<rceil>;
              x_offset = \<lceil>(real width - real_of_int sz) / 2\<rceil>
          in if rest = [] then Inl IndexError
             else
               let (y0, ny) = slice_axis height y_offset (y_offset + sz);
                   (x0, nx) = slice_axis width x_offset (x_offset + sz);
                   cropped =
                     \<lparr>dtype = dtype frame, shape = ny # nx # rest,
                      elem = (\<lambda>idx. case idx of
                                       y # x # r \<Rightarrow> elem frame ((y0 + y) # (x0 + x) # r)
                                     | _ \<Rightarrow> 0)\<rparr>
               in if int ny \<noteq> sz then Inl AssertionError
                  else if int nx \<noteq> sz then Inl AssertionError
                  else Inr cropped
      | _ \<Rightarrow> Inl IndexError)"

text \<open>
  An array and a vector in one arithmetic operation: NumPy broadcasts the vector along
  the last axis, and raises when the two lengths differ and neither is 1.
\<close>

definition broadcast_vec ::
  "(real \<Rightarrow> real \<Rightarrow> real) \<Rightarrow> ndarray \<Rightarrow> real list \<Rightarrow> py_error + ndarray" where
  "broadcast_vec f a v =
     (let m = length v;
          d = (if shape a = [] then 1 else last (shape a))
      in if d = m \<or> m = 1 \<or> d = 1 then
           Inr \<lparr>dtype = Float32,
                shape = butlast (shape a) @ [if d = 1 then m else d],
                elem = (\<lambda>idx.
                  f (elem a (if shape a = [] then []
                             else butlast idx @ [if d = 1 then 0 else last idx]))
                    (v ! (if m = 1 then 0 else last idx)))\<rparr>
         else Inl ValueError)"

definition normalize :: "ndarray \<Rightarrow> real list \<Rightarrow> real list \<Rightarrow> py_error + ndarray" where
  "normalize array mean std =
     (let array1 = (if dtype array = UInt8
                    then map_elems (\<lambda>v. v / 255) (array\<lparr>dtype := Float32\<rparr>)
                    else array)
      in bindE (broadcast_vec (\<lambda>v m. v - m) array1 mean)
           (\<lambda>array2. broadcast_vec (\<lambda>v s. v / s) array2 std))"

text \<open>
  \<open>np.linspace(start, stop, num)\<close>: \<open>num\<close> evenly spaced values, the first \<open>start\<close> and,
  from two values on, the last \<open>stop\<close>; a negative \<open>num\<close> raises. \<open>astype(np.int_)\<close>
  truncates (\<open>py_int\<close>). In float64 a product that is an integer in the reals can fall just
  below it; the model has the exact values.
\<close>

definition linspace_at :: "real \<Rightarrow> real \<Rightarrow> int \<Rightarrow> nat \<Rightarrow> real" where
  "linspace_at start stop num i =
     (if num = 1 then start
      else start + real i * ((stop - start) / real_of_int (num - 1)))"

definition np_linspace :: "real \<Rightarrow> real \<Rightarrow> int \<Rightarrow> py_error + real list" where
  "np_linspace start stop num =
     (if num < 0 then Inl ValueError
      else Inr (map (linspace_at start stop num) [0..<nat num]))"

text \<open>
  \<open>np.take(a, indices, axis=1)\<close>: an index below zero counts from the end, one outside
  the axis raises.
\<close>

definition np_take_axis1 :: "ndarray \<Rightarrow> int list \<Rightarrow> py_error + ndarray" where
  "np_take_axis1 a indices =
     (case shape a of
        c # t # rest \<Rightarrow>
          if list_all (\<lambda>i. - int t \<le> i \<and> i < int t) indices then
            Inr \<lparr>dtype = dtype a, shape = c # length indices # rest,
                 elem = (\<lambda>idx. case idx of
                                  ci # ti # r \<Rightarrow>
                                    elem a (ci # nat (if indices ! ti < 0 then indices ! ti + int t
                                                      else indices ! ti) # r)
                                | _ \<Rightarrow> 0)\<rparr>
          else Inl IndexError
      | _ \<Rightarrow> Inl ValueError)"

definition pack_pathway_output :: "ndarray \<Rightarrow> int \<Rightarrow> py_error + ndarray list" where
  "pack_pathway_output frames alpha =
     (let fast_pathway = frames
      in (case shape frames of
            c # t # rest \<Rightarrow>
              if alpha = 0 then Inl ZeroDivisionError
              else
                bindE (np_linspace 0 (real_of_int (int t - 1)) (int t div alpha))
                  (\<lambda>ls. bindE (np_take_axis1 frames (map py_int ls))
                  (\<lambda>slow_pathway. Inr [slow_pathway, fast_pathway]))
          | _ \<Rightarrow> Inl IndexError))"

text \<open>
  NumPy computes \<open>np.linspace\<close> in float64, and a product that is an integer in the reals
  can come out just below it, so that \<open>astype(np.int_)\<close> truncates to the integer before.
  \<open>float64\<close> rounds a real to the nearest number with a 53-bit significand, a tie to the
  even one (IEEE 754 binary64); the exponent is left unbounded, the values of
  \<open>pack_pathway_output\<close> lying far inside the range of the normal numbers.
\<close>

definition float64 :: "real \<Rightarrow> real" where
  "float64 x =
     (if x = 0 then 0
      else let q = 2 powr (real_of_int \<lfloor>log 2 \<bar>x\<bar>\<rfloor> - 52)
           in real_of_int (np_round (x / q)) * q)"

text \<open>
  Element \<open>i\<close> of \<open>np.linspace(start, stop, num)\<close> as NumPy's \<open>linspace\<close> computes it, every
  operation rounded: \<open>delta = stop - start\<close>, \<open>step = delta / div\<close> with \<open>div = num - 1\<close>,
  \<open>y = arange(0, num) * step\<close> (or \<open>y / div * delta\<close> when the step is zero, \<open>y * delta\<close> when
  \<open>div\<close> is), \<open>y += start\<close>, and last, when \<open>num > 1\<close>, \<open>y[-1] = stop\<close>. The bounds
  \<open>start\<close> and \<open>stop\<close> are Python integers here, exact in float64 below \<open>2 ^ 53\<close>.
\<close>

definition linspace_f64_at :: "real \<Rightarrow> real \<Rightarrow> int \<Rightarrow> nat \<Rightarrow> real" where
  "linspace_f64_at start stop num i =
     (let dv = num - 1;
          delta = float64 (stop - start)
      in if 1 < num \<and> int i = num - 1 then stop
         else
           float64
             ((if 0 < dv then
                 let step = float64 (delta / real_of_int dv)
                 in if step = 0 then float64 (float64 (real i / real_of_int dv) * delta)
                    else float64 (real i * step)
               else float64 (real i * delta))
              + start))"

definition np_linspace_f64 :: "real \<Rightarrow> real \<Rightarrow> int \<Rightarrow> py_error + real list" where
  "np_linspace_f64 start stop num =
     (if num < 0 then Inl ValueError
      else Inr (map (linspace_f64_at start stop num) [0..<nat num]))"

text \<open>\<open>pack_pathway_output\<close> with the float64 values of \<open>np.linspace\<close>.\<close>

definition pack_pathway_output_f64 :: "ndarray \<Rightarrow> int \<Rightarrow> py_error + ndarray list" where
  "pack_pathway_output_f64 frames alpha =
     (let fast_pathway = frames
      in (case shape frames of
            c # t # rest \<Rightarrow>
              if alpha = 0 then Inl ZeroDivisionError
              else
                bindE (np_linspace_f64 0 (real_of_int (int t - 1)) (int t div alpha))
                  (\<lambda>ls. bindE (np_take_axis1 frames (map py_int ls))
                  (\<lambda>slow_pathway. Inr [slow_pathway, fast_pathway]))
          | _ \<Rightarrow> Inl IndexError))"

text \<open>
  \<open>np.array\<close> of a list of arrays stacks them along a new first axis; they must all
  have one shape. Of the empty list it is an array of shape \<open>(0,)\<close>.
\<close>

definition np_array :: "ndarray list \<Rightarrow> py_error + ndarray" where
  "np_array arrs =
     (case arrs of
        [] \<Rightarrow> Inr \<lparr>dtype = Float32, shape = [0], elem = (\<lambda>idx. 0)\<rparr>
      | a # rest \<Rightarrow>
          if list_all (\<lambda>b. shape b = shape a) rest then
            Inr \<lparr>dtype = (if list_all (\<lambda>b. dtype b = UInt8) arrs then UInt8 else Float32),
                 shape = length arrs # shape a,
                 elem = (\<lambda>idx. case idx of [] \<Rightarrow> 0 | t # r \<Rightarrow> elem (arrs ! t) r)\<rparr>
          else Inl ValueError)"

text \<open>
  \<open>a.transpose(axes)\<close>: axis \<open>k\<close> of the result is axis \<open>axes[k]\<close> of \<open>a\<close>; \<open>axes\<close> must
  be a permutation of the axes of \<open>a\<close>.
\<close>

definition position_of :: "nat list \<Rightarrow> nat \<Rightarrow> nat" where
  "position_of axes j = length (takeWhile (\<lambda>x. x \<noteq> j) axes)"

definition np_transpose :: "ndarray \<Rightarrow> nat list \<Rightarrow> py_error + ndarray" where
  "np_transpose a axes =
     (if length axes = length (shape a) \<and> distinct axes \<and> list_all (\<lambda>k. k < length axes) axes
      then Inr \<lparr>dtype = dtype a,
                shape = map (\<lambda>k. shape a ! k) axes,
                elem = (\<lambda>idx. elem a (map (\<lambda>j. idx ! position_of axes j) [0..<length axes]))\<rparr>
      else Inl ValueError)"

definition expand_dims0 :: "ndarray \<Rightarrow> ndarray" where
  "expand_dims0 a = a\<lparr>shape := 1 # shape a, elem := (\<lambda>idx. elem a (tl idx))\<rparr>"

definition process_inputs ::
  "interpolation \<Rightarrow> ndarray option list \<Rightarrow> int \<Rightarrow> int \<Rightarrow> real list \<Rightarrow> real list \<Rightarrow>
   py_error + ndarray list" where
  "process_inputs interp frames num_frames crop_size mean std =
     bindE (mapE (scale_short_side interp crop_size) frames) (\<lambda>inputs1.
     bindE (mapE (center_crop crop_size) inputs1) (\<lambda>inputs2.
     bindE (np_array inputs2) (\<lambda>inputs3.
     bindE (normalize (map_elems (\<lambda>v. v / 255) (inputs3\<lparr>dtype := Float32\<rparr>)) mean std) (\<lambda>inputs4.
     bindE (np_transpose inputs4 [3, 0, 1, 2]) (\<lambda>inputs5.
     (case shape inputs5 of
        c # t # rest \<Rightarrow>
          bindE (np_linspace 0 (real_of_int (int t - 1)) num_frames) (\<lambda>ls.
          bindE (np_take_axis1 inputs5 (map py_int ls)) (\<lambda>inputs6.
          bindE (pack_pathway_output inputs6 4) (\<lambda>inputs7.
          Inr (map expand_dims0 inputs7))))
      | _ \<Rightarrow> Inl IndexError))))))"

section \<open>SlowFast notebook: inference\<close>

text \<open>
  The frame collection loop of \<open>run_inference\<close>. A video is the list of the frames that
  can be read; past its end \<open>read()\<close> returns \<open>(False, None)\<close>, and the loop appends the
  \<open>None\<close> before it stops.
\<close>

fun collect_frames :: "ndarray list \<Rightarrow> ndarray option list \<Rightarrow> int \<Rightarrow> ndarray option list" where
  "collect_frames [] frames seq_length =
     (if int (length frames) < seq_length then frames @ [None] else frames)"
| "collect_frames (frame # video) frames seq_length =
     (if int (length frames) < seq_length
      then collect_frames video (frames @ [Some frame]) seq_length
      else frames)"

text \<open>
  The two kinds of model \<open>run_inference\<close> tells apart with \<open>isinstance\<close>. Either is, for
  the model, a function from the list of input arrays to a batch of score rows: the
  networks themselves are outside the repository. \<open>invoke_model\<close> is the \<open>if\<close> of
  \<open>run_inference\<close> that calls the one or the other.
\<close>

datatype model =
    CompiledModel "ndarray list \<Rightarrow> real list list"
  | TorchModel "ndarray list \<Rightarrow> real list list"

definition invoke_model :: "model \<Rightarrow> ndarray list \<Rightarrow> real list list" where
  "invoke_model model inputs =
     (case model of
        CompiledModel compiled \<Rightarrow> compiled inputs
      | TorchModel torch_model \<Rightarrow> torch_model inputs)"

definition softmax :: "real list list \<Rightarrow> real list list" where
  "softmax x = (let total = (\<Sum>row\<leftarrow>x. \<Sum>v\<leftarrow>row. exp v) in map (map (\<lambda>v. exp v / total)) x)"

text \<open>
  The last lines of \<open>run_inference\<close>, from the softmax on. \<open>np.argsort\<close> is called with
  its default kind, quicksort, which NumPy documents as not stable: the model takes
  \<open>argsort\<close> as a parameter, applied to each row.
\<close>

definition pred_class_names ::
  "(real list \<Rightarrow> nat list) \<Rightarrow> (int \<rightharpoonup> string) \<Rightarrow> real list list \<Rightarrow> py_error + string list" where
  "pred_class_names argsort id_to_label_mapping predictions =
     (let predictions1 = softmax predictions;
          topk = 5;
          pred_classes = map (\<lambda>row. take topk (argsort (map (\<lambda>v. - 1 * v) row))) predictions1
      in (case pred_classes of
            [] \<Rightarrow> Inl IndexError
          | row0 # _ \<Rightarrow>
              mapE (\<lambda>i. case id_to_label_mapping (int i) of
                          None \<Rightarrow> Inl KeyError
                        | Some name \<Rightarrow> Inr name) row0))"

definition run_inference ::
  "(real list \<Rightarrow> nat list) \<Rightarrow> interpolation \<Rightarrow> model \<Rightarrow> ndarray list \<Rightarrow> int \<Rightarrow>
   (int \<rightharpoonup> string) \<Rightarrow> int \<Rightarrow> int \<Rightarrow> int \<Rightarrow> real list \<Rightarrow> real list \<Rightarrow> py_error + string list" where
  "run_inference argsort interp model video top_k id_to_label_mapping num_frames rate crop_size
     mean std =
     (let seq_length = num_frames * rate;
          frames = collect_frames video [] seq_length
      in bindE (process_inputs interp frames num_frames crop_size mean std)
           (\<lambda>inputs.
              let predictions = invoke_model model inputs
              in pred_class_names argsort id_to_label_mapping predictions))"

text \<open>
  What NumPy promises of \<open>np.argsort(keys)\<close> whatever the kind of sort: a permutation of
  the indices that puts the keys in ascending order. A stable sort (\<open>kind='stable'\<close>, equal
  keys in ascending index order) keeps the promise.
\<close>

definition is_argsort :: "real list \<Rightarrow> nat list \<Rightarrow> bool" where
  "is_argsort keys perm \<longleftrightarrow>
     distinct perm \<and> set perm = {0..<length keys} \<and> sorted (map (\<lambda>i. keys ! i) perm)"

definition argsort_stable :: "real list \<Rightarrow> nat list" where
  "argsort_stable keys = sort_key (\<lambda>i. keys ! i) [0..<length keys]"














section \<open>Concrete inputs\<close>

text \<open>A 640 by 360 colour frame, a 4 by 6 one, and an interpolation, all of zeros.\<close>

definition frame_360p :: ndarray where
  "frame_360p = \<lparr>dtype = UInt8, shape = [360, 640, 3], elem = (\<lambda>idx. 0)\<rparr>"

definition frame_small :: ndarray where
  "frame_small = \<lparr>dtype = UInt8, shape = [4, 6, 3], elem = (\<lambda>idx. 0)\<rparr>"

definition interp_zero :: interpolation where
  "interp_zero = (\<lambda>src new_width new_height idx. 0)"

text \<open>A clip of 32 frames of one pixel, each holding its own time index.\<close>

definition ramp :: ndarray where
  "ramp = \<lparr>dtype = Float32, shape = [1, 32, 1, 1], elem = (\<lambda>idx. real (idx ! 1))\<rparr>"

text \<open>A clip of 149 frames of one pixel, each holding its own time index.\<close>

definition ramp149 :: ndarray where
  "ramp149 = \<lparr>dtype = Float32, shape = [1, 149, 1, 1], elem = (\<lambda>idx. real (idx ! 1))\<rparr>"

text \<open>A table of six class names, and a network that scores all six classes alike.\<close>

definition six_classnames :: "int \<rightharpoonup> string" where
  "six_classnames =
     [0 \<mapsto> ''abseiling'', 1 \<mapsto> ''air drumming'', 2 \<mapsto> ''answering questions'',
      3 \<mapsto> ''applauding'', 4 \<mapsto> ''applying cream'', 5 \<mapsto> ''archery'']"

definition flat_scores :: "ndarray list \<Rightarrow> real list list" where
  "flat_scores inputs = [[0, 0, 0, 0, 0, 0]]"





section \<open>Theorems: partial utterances\<close>

lemma bindE_simps:
  "bindE (Inl e) f = Inl e" "bindE (Inr x) f = f x"
  by (simp_all add: bindE_def)

lemma py_range_single:
  assumes "0 < step" and "0 < stop" and "stop \<le> step"
  shows "py_range 0 stop step = [0]"
proof -
  have "py_range 0 stop step = 0 # py_range step stop step"
    using assms by (subst py_range.simps) simp
  also have "py_range step stop step = []"
    using assms by (subst py_range.simps) simp
  finally show ?thesis .
qed

lemma spf16: "samples_per_frame hparams_16k = 160"
  by (simp add: samples_per_frame_def hparams_16k_def py_int_def)

lemma fs16: "frame_step_of hparams_16k (13 / 10) = 77"
  by (simp add: frame_step_of_def spf16 np_round_def Let_def) (simp add: hparams_16k_def)

lemma nf16: "n_frames_of hparams_16k 160 = 2"
  by (simp add: n_frames_of_def spf16)

lemma pnf16: "partials_n_frames hparams_16k = 160"
  by (simp add: hparams_16k_def)

lemma py_range_two:
  assumes "0 < step"
  shows "py_range 0 (step + 1) step = [0, step]"
proof -
  have "py_range 0 (step + 1) step = 0 # py_range step (step + 1) step"
    using assms by (subst py_range.simps) simp
  also have "py_range step (step + 1) step = step # py_range (step + step) (step + 1) step"
    using assms by (subst py_range.simps) simp
  also have "py_range (step + step) (step + 1) step = []"
    using assms by (subst py_range.simps) simp
  finally show ?thesis .
qed

lemma n_frames_le:
  assumes "0 < samples_per_frame hp"
    and "n_samples < partials_n_frames hp * samples_per_frame hp"
  shows "n_frames_of hp n_samples \<le> partials_n_frames hp"
proof -
  have "n_samples + 1 \<le> partials_n_frames hp * samples_per_frame hp" using assms(2) by simp
  then have "real_of_int (n_samples + 1)
      \<le> real_of_int (partials_n_frames hp) * real_of_int (samples_per_frame hp)"
    by (metis of_int_le_iff of_int_mult)
  then have "real_of_int (n_samples + 1) / real_of_int (samples_per_frame hp)
      \<le> real_of_int (partials_n_frames hp)"
    using assms(1) by (simp add: pos_divide_le_eq)
  then show ?thesis unfolding n_frames_of_def by (simp only: ceiling_le_iff)
qed

text \<open>
  Claim C1, as the code has it. For an asset shorter than one partial utterance
  (\<open>n_samples < partials_n_frames * samples_per_frame\<close>), whenever the assertions of
  \<open>compute_partial_slices\<close> pass, the unit \<open>[0, partials_n_frames)\<close> is always returned,
  to be zero-padded, whatever \<open>min_coverage\<close> and the coverage of real data in it: the
  guard \<open>len(mel_slices) > 1\<close> keeps the only slice. It is the only unit returned unless
  the asset reaches the last frame of the utterance (\<open>n_frames = partials_n_frames\<close>);
  there the loop makes a second slice, starting at \<open>frame_step\<close>, which is dropped when its
  coverage is below \<open>min_coverage\<close> and kept otherwise.
\<close>

theorem compute_partial_slices_short_asset:
  assumes cov: "0 < min_coverage" "min_coverage \<le> 1"
    and spf: "0 < samples_per_frame hp"
    and rate: "rate \<noteq> 0"
    and step: "0 < frame_step_of hp rate" "frame_step_of hp rate \<le> partials_n_frames hp"
    and short: "n_samples < partials_n_frames hp * samples_per_frame hp"
  shows "compute_partial_slices hp n_samples rate min_coverage =
    (if n_frames_of hp n_samples < partials_n_frames hp
        \<or> coverage_of n_samples
             (frame_step_of hp rate * samples_per_frame hp,
              (frame_step_of hp rate + partials_n_frames hp) * samples_per_frame hp)
           < min_coverage
     then Inr ([(0, partials_n_frames hp * samples_per_frame hp)], [(0, partials_n_frames hp)])
     else Inr ([(0, partials_n_frames hp * samples_per_frame hp),
                (frame_step_of hp rate * samples_per_frame hp,
                 (frame_step_of hp rate + partials_n_frames hp) * samples_per_frame hp)],
               [(0, partials_n_frames hp),
                (frame_step_of hp rate, frame_step_of hp rate + partials_n_frames hp)]))"
proof (cases "n_frames_of hp n_samples < partials_n_frames hp")
  case True
  let ?steps = "max 1 (n_frames_of hp n_samples - partials_n_frames hp + frame_step_of hp rate + 1)"
  have "0 < ?steps" and "?steps \<le> frame_step_of hp rate"
    using step True by simp_all
  then have r: "py_range 0 ?steps (frame_step_of hp rate) = [0]"
    using step(1) by (intro py_range_single)
  have nz: "partials_n_frames hp * samples_per_frame hp \<noteq> 0"
    using step spf by simp
  show ?thesis
    using cov spf rate step nz True
    by (simp add: compute_partial_slices_def Let_def wav_slices_of_def mel_slices_of_def r
        del: max_less_iff_conj)
next
  case False
  with n_frames_le [OF spf short] have eq: "n_frames_of hp n_samples = partials_n_frames hp"
    by simp
  have steps: "max 1 (n_frames_of hp n_samples - partials_n_frames hp + frame_step_of hp rate + 1)
      = frame_step_of hp rate + 1"
    using step(1) by (simp add: eq)
  have nz: "partials_n_frames hp * samples_per_frame hp \<noteq> 0"
    using step spf by simp
  have r: "py_range 0 (frame_step_of hp rate + 1) (frame_step_of hp rate)
      = [0, frame_step_of hp rate]"
    using step(1) by (rule py_range_two)
  have w: "(frame_step_of hp rate + partials_n_frames hp) * samples_per_frame hp
      - frame_step_of hp rate * samples_per_frame hp \<noteq> 0"
    using nz by (simp add: algebra_simps)
  show ?thesis
    using cov spf rate step False w
    by (simp add: compute_partial_slices_def Let_def steps wav_slices_of_def mel_slices_of_def r)
qed

lemma fs16_10: "frame_step_of hparams_16k 10 = 10"
  by (simp add: frame_step_of_def spf16 np_round_def Let_def) (simp add: hparams_16k_def)

lemma nf16_band: "n_frames_of hparams_16k 25500 = 160"
  by (simp add: n_frames_of_def spf16)

theorem compute_partial_slices_short_asset_witness:
  "compute_partial_slices hparams_16k 160 (13 / 10) (3 / 4) = Inr ([(0, 25600)], [(0, 160)])
   \<and> compute_partial_slices hparams_16k 25500 (13 / 10) (3 / 4) = Inr ([(0, 25600)], [(0, 160)])
   \<and> compute_partial_slices hparams_16k 25500 10 (3 / 4)
       = Inr ([(0, 25600), (1600, 27200)], [(0, 160), (10, 170)])"
  using compute_partial_slices_short_asset [of "3 / 4" hparams_16k "13 / 10" 160]
    compute_partial_slices_short_asset [of "3 / 4" hparams_16k "13 / 10" 25500]
    compute_partial_slices_short_asset [of "3 / 4" hparams_16k 10 25500]
  by (simp add: spf16 fs16 fs16_10 nf16 nf16_band pnf16 coverage_of_def)

text \<open>
  Claim C1 as stated fails: 160 samples are 2 frames of the 160 of a partial utterance and
  cover 160 of its 25600 samples, far below 0.75, and the unit is returned all the same.
\<close>

theorem compute_partial_slices_keeps_low_coverage_unit:
  "n_frames_of hparams_16k 160 < partials_n_frames hparams_16k \<and>
   coverage_of 160 (0, 25600) < 3 / 4 \<and>
   compute_partial_slices hparams_16k 160 (13 / 10) (3 / 4) = Inr ([(0, 25600)], [(0, 160)])"
  by (simp add: compute_partial_slices_def spf16 fs16 nf16 pnf16 wav_slices_of_def
      mel_slices_of_def py_range.simps coverage_of_def)

section \<open>Theorems: the utterance embedding\<close>













section \<open>Theorems: the EnCodec adaptors\<close>

lemma py_int_of_int: "py_int (of_int k) = k"
  by (simp add: py_int_def)

lemma int16_roundtrip: "word_of_int (py_int (real_of_int (sint w) / 2 ^ 15 * 2 ^ 15)) = (w :: 16 word)"
proof -
  have "real_of_int (sint w) / 2 ^ 15 * 2 ^ 15 = real_of_int (sint w)" by simp
  then show ?thesis by (simp only: py_int_of_int) simp
qed

lemma int16_cast: "word_of_int (py_int (real_of_int (sint w))) = (w :: 16 word)"
  by (simp only: py_int_of_int) simp

text \<open>
  Claim C7. With \<open>convert_audio\<close> the identity at the given rates and channels and the
  codec replaced by the identity, \<open>postprocess\<close> after \<open>preprocess\<close> gives back every
  int16 sample, exactly; the shape is the input's without its axes of length 1.
\<close>

theorem postprocess_preprocess_identity:
  assumes "\<forall>t. convert_audio t sample_rate model_sr model_channels = t"
  shows "vals (postprocess (preprocess convert_audio input sample_rate model_sr model_channels)) = vals input
    \<and> dims (postprocess (preprocess convert_audio input sample_rate model_sr model_channels))
        = filter (\<lambda>d. d \<noteq> 1) (dims input)"
  using assms
  by (simp add: preprocess_def postprocess_def Let_def comp_def int16_cast map_idI del: of_int_sint) 

theorem postprocess_preprocess_identity_witness:
  "postprocess (preprocess (\<lambda>t sr tsr ch. t) \<lparr>dims = [3], vals = [1, - 32768, 32767]\<rparr> 24000 24000 1)
     = \<lparr>dims = [3], vals = [1, - 32768, 32767]\<rparr>"
  using postprocess_preprocess_identity [of "\<lambda>t sr tsr ch. t" 24000 24000 1 "\<lparr>dims = [3], vals = [1, - 32768, 32767]\<rparr>"]
  by (simp add: tensor.equality)

section \<open>Theorems: the conversion cache\<close>

lemma convert_ir_cmodel_cached:
  "ir \<in> dom fs \<Longrightarrow> convert_ir_cmodel ov onnx ir fs = (fs, read_model ov fs ir)"
  by (simp add: convert_ir_cmodel_def)

lemma convert_ir_cmodel_twice:
  "fst (convert_ir_cmodel ov onnx ir (fst (convert_ir_cmodel ov onnx ir fs))) = fst (convert_ir_cmodel ov onnx ir fs)"
proof (cases "ir \<in> dom fs")
  case True
  then show ?thesis by (simp add: convert_ir_cmodel_def)
next
  case False
  show ?thesis
  proof (cases "convert_model ov fs onnx")
    case (Inl e)
    with False show ?thesis by (simp add: convert_ir_cmodel_def)
  next
    case (Inr m)
    have "ir \<in> dom (save_model ov m ir fs)" by (simp add: save_model_def)
    with False Inr show ?thesis by (simp add: convert_ir_cmodel_def)
  qed
qed

lemma convert_encoder_ov_cached:
  "OV_ENCODER_PATH \<in> dom fs \<Longrightarrow> convert_encoder_ov ov ex fs = (fs, read_model ov fs OV_ENCODER_PATH)"
  by (simp add: convert_encoder_ov_def)

lemma convert_encoder_ov_twice:
  "fst (convert_encoder_ov ov ex (fst (convert_encoder_ov ov ex fs))) = fst (convert_encoder_ov ov ex fs)"
proof (cases "OV_ENCODER_PATH \<in> dom fs")
  case True
  then show ?thesis by (simp add: convert_encoder_ov_def)
next
  case False
  show ?thesis
  proof (cases ex)
    case (Inl e)
    with False show ?thesis by (simp add: convert_encoder_ov_def)
  next
    case ex: (Inr onnx)
    let ?fs1 = "fs(''encodec_encoder.onnx'' \<mapsto> onnx)"
    have nx: "OV_ENCODER_PATH \<notin> dom ?fs1"
      using False by (simp add: OV_ENCODER_PATH_def)
    have same: "?fs1(''encodec_encoder.onnx'' \<mapsto> onnx) = ?fs1" by simp
    show ?thesis
    proof (cases "convert_model ov ?fs1 ''encodec_encoder.onnx''")
      case (Inl e)
      have 1: "convert_encoder_ov ov ex fs = (?fs1, Inl e)"
        using False ex Inl by (simp add: convert_encoder_ov_def)
      have 2: "convert_encoder_ov ov ex ?fs1 = (?fs1, Inl e)"
        using nx ex Inl by (simp add: convert_encoder_ov_def)
      show ?thesis by (simp add: 1 2)
    next
      case (Inr m)
      have 1: "convert_encoder_ov ov ex fs = (save_model ov m OV_ENCODER_PATH ?fs1, Inr m)"
        using False ex Inr by (simp add: convert_encoder_ov_def)
      have "OV_ENCODER_PATH \<in> dom (save_model ov m OV_ENCODER_PATH ?fs1)"
        by (simp add: save_model_def)
      then show ?thesis by (simp add: 1 convert_encoder_ov_cached)
    qed
  qed
qed

text \<open>
  Claim C4. When the artifact exists the block leaves the whole disk as it was and only
  reads the model; and a second run of the block leaves the disk as the first run left
  it, the artifact and every other file. Both blocks.
\<close>

theorem conversion_step_idempotent:
  "(ir \<in> dom fs \<longrightarrow> convert_ir_cmodel ov onnx ir fs = (fs, read_model ov fs ir)) \<and>
   fst (convert_ir_cmodel ov onnx ir (fst (convert_ir_cmodel ov onnx ir fs)))
     = fst (convert_ir_cmodel ov onnx ir fs) \<and>
   (OV_ENCODER_PATH \<in> dom fs \<longrightarrow> convert_encoder_ov ov ex fs = (fs, read_model ov fs OV_ENCODER_PATH)) \<and>
   fst (convert_encoder_ov ov ex (fst (convert_encoder_ov ov ex fs)))
     = fst (convert_encoder_ov ov ex fs)"
  using convert_ir_cmodel_cached [of ir fs ov onnx] convert_ir_cmodel_twice [of ov onnx ir fs]
    convert_encoder_ov_cached [of fs ov ex] convert_encoder_ov_twice [of ov ex fs]
  by blast

theorem conversion_step_idempotent_witness:
  "convert_ir_cmodel ov_stub ''output/cmodel_fp32.onnx'' ''output/cmodel_ir.xml''
      [''output/cmodel_ir.xml'' \<mapsto> [1, 2, 3]]
     = ([''output/cmodel_ir.xml'' \<mapsto> [1, 2, 3]], Inr 3) \<and>
   convert_encoder_ov ov_stub (Inr [7]) [OV_ENCODER_PATH \<mapsto> [1, 2]]
     = ([OV_ENCODER_PATH \<mapsto> [1, 2]], Inr 2)"
  using conversion_step_idempotent [of "''output/cmodel_ir.xml''" "[''output/cmodel_ir.xml'' \<mapsto> [1, 2, 3]]"
      ov_stub "''output/cmodel_fp32.onnx''" "Inr [7]"]
    conversion_step_idempotent [of "''output/cmodel_ir.xml''" "[OV_ENCODER_PATH \<mapsto> [1, 2]]"
      ov_stub "''output/cmodel_fp32.onnx''" "Inr [7]"]
  by (simp add: ov_stub_def)

section \<open>Theorems: SlowFast preprocessing\<close>

lemma bindE_eq_Inr: "bindE m f = Inr r \<longleftrightarrow> (\<exists>x. m = Inr x \<and> f x = Inr r)"
  by (cases m) (simp_all add: bindE_def)

lemma mapE_Inr_iff: "mapE f xs = Inr ys \<longleftrightarrow> list_all2 (\<lambda>x y. f x = Inr y) xs ys"
proof (induction xs arbitrary: ys)
  case Nil
  then show ?case by auto
next
  case (Cons x xs)
  show ?case
  proof (cases "f x")
    case (Inl e)
    then show ?thesis by (auto simp: list_all2_Cons1)
  next
    case fx: (Inr y)
    show ?thesis
    proof (cases "mapE f xs")
      case (Inl e)
      with fx Cons.IH show ?thesis by (auto simp: list_all2_Cons1)
    next
      case (Inr zs)
      with fx Cons.IH show ?thesis by (auto simp: list_all2_Cons1)
    qed
  qed
qed

lemma mapE_fails:
  assumes "x \<in> set xs" and "f x = Inl e"
  shows "\<exists>e'. mapE f xs = Inl e'"
proof (cases "mapE f xs")
  case (Inl e')
  then show ?thesis by blast
next
  case (Inr ys)
  then have "list_all2 (\<lambda>x y. f x = Inr y) xs ys" by (simp add: mapE_Inr_iff)
  with assms(1) obtain y where "f x = Inr y"
    by (auto simp: list_all2_conv_all_nth in_set_conv_nth)
  with assms(2) show ?thesis by simp
qed

lemma scale_short_side_colour:
  assumes "shape fr = [h, w, 3]" and "scale_short_side interp sz (Some fr) = Inr g"
  shows "\<exists>h' w'. shape g = [h', w', 3]"
  using assms
  by (auto simp: scale_short_side_def cv2_resize_def bindE_eq_Inr Let_def split: if_splits)

lemma floor_ratio_ge:
  assumes "0 < (a::nat)" and "a \<le> b" and "0 < sz"
  shows "sz \<le> \<lfloor>(real b / real a) * real_of_int sz\<rfloor>"
proof -
  have "1 \<le> real b / real a" using assms by simp
  then have "real_of_int sz * 1 \<le> real_of_int sz * (real b / real a)"
    using assms(3) by (intro mult_left_mono) simp_all
  then have "real_of_int sz \<le> (real b / real a) * real_of_int sz" by (simp add: mult.commute)
  then show ?thesis by (simp add: le_floor_iff)
qed

lemma scale_short_side_succeeds:
  assumes sh: "shape fr = [h, w, 3]" and pos: "0 < h" "0 < w" "0 < sz"
  shows "\<exists>g h' w'. scale_short_side interp sz (Some fr) = Inr g \<and> shape g = [h', w', 3]
           \<and> sz \<le> int h' \<and> sz \<le> int w'"
proof (cases "(w \<le> h \<and> int w = sz) \<or> (h \<le> w \<and> int h = sz)")
  case True
  then have "scale_short_side interp sz (Some fr) = Inr fr"
    using sh by (simp add: scale_short_side_def)
  moreover have "sz \<le> int h \<and> sz \<le> int w" using True by auto
  ultimately show ?thesis using sh by blast
next
  case False
  show ?thesis
  proof (cases "w < h")
    case True
    let ?nh = "\<lfloor>(real h / real w) * real_of_int sz\<rfloor>"
    have ge: "sz \<le> ?nh" using pos True by (intro floor_ratio_ge) simp_all
    then have "0 < ?nh" using pos by linarith
    then show ?thesis
      using sh pos False True ge
      by (simp add: scale_short_side_def cv2_resize_def bindE_def Let_def)
  next
    case wh: False
    let ?nw = "\<lfloor>(real w / real h) * real_of_int sz\<rfloor>"
    have ge: "sz \<le> ?nw" using pos wh by (intro floor_ratio_ge) simp_all
    then have "0 < ?nw" using pos by linarith
    then show ?thesis
      using sh pos False wh ge
      by (simp add: scale_short_side_def cv2_resize_def bindE_def Let_def)
  qed
qed


lemma center_crop_colour:
  assumes "shape g = [h, w, 3]" and "center_crop sz g = Inr k"
  shows "shape k = [nat sz, nat sz, 3] \<and> 0 \<le> sz"
  using assms
  by (auto simp: center_crop_def Let_def split: if_splits prod.splits)

lemma slice_axis_inside:
  assumes "0 \<le> a" and "0 \<le> n" and "a + n \<le> int len"
  shows "slice_axis len a (a + n) = (nat a, nat n)"
  using assms by (simp add: slice_axis_def slice_bound_def)

lemma crop_offset:
  assumes "sz \<le> int h"
  shows "0 \<le> \<lceil>(real h - real_of_int sz) / 2\<rceil>"
    and "\<lceil>(real h - real_of_int sz) / 2\<rceil> + sz \<le> int h"
proof -
  have "(real h - real_of_int sz) / 2 = real_of_int (int h - sz) / 2" by simp
  then have c: "\<lceil>(real h - real_of_int sz) / 2\<rceil> = \<lceil>real_of_int (int h - sz) / 2\<rceil>" by simp
  have "0 \<le> \<lceil>real_of_int (int h - sz) / 2\<rceil>" using assms by (simp add: zero_le_ceiling)
  moreover have "\<lceil>real_of_int (int h - sz) / 2\<rceil> \<le> int h - sz"
    using assms by (simp add: ceiling_le_iff)
  ultimately show "0 \<le> \<lceil>(real h - real_of_int sz) / 2\<rceil>"
    and "\<lceil>(real h - real_of_int sz) / 2\<rceil> + sz \<le> int h"
    unfolding c by linarith+
qed

lemma center_crop_succeeds:
  assumes sh: "shape g = [h, w, 3]" and "0 < sz" and "sz \<le> int h" and "sz \<le> int w"
  shows "\<exists>k. center_crop sz g = Inr k \<and> shape k = [nat sz, nat sz, 3]"
proof -
  have y: "slice_axis h \<lceil>(real h - real_of_int sz) / 2\<rceil> (\<lceil>(real h - real_of_int sz) / 2\<rceil> + sz)
      = (nat \<lceil>(real h - real_of_int sz) / 2\<rceil>, nat sz)"
    using assms crop_offset [of sz h] by (intro slice_axis_inside) simp_all
  have x: "slice_axis w \<lceil>(real w - real_of_int sz) / 2\<rceil> (\<lceil>(real w - real_of_int sz) / 2\<rceil> + sz)
      = (nat \<lceil>(real w - real_of_int sz) / 2\<rceil>, nat sz)"
    using assms crop_offset [of sz w] by (intro slice_axis_inside) simp_all
  show ?thesis
    using assms(2) by (simp add: center_crop_def sh Let_def x y)
qed

lemma np_array_same_shape:
  assumes "arrs \<noteq> []" and "\<forall>a\<in>set arrs. shape a = s"
  shows "\<exists>b. np_array arrs = Inr b \<and> shape b = length arrs # s"
  using assms by (cases arrs) (auto simp: np_array_def list_all_iff)

lemma np_array_Nil: "\<exists>b. np_array [] = Inr b \<and> shape b = [0]"
  by (simp add: np_array_def)

lemma normalize_colour:
  assumes "length mean = 3" and "length std = 3" and "shape a = p @ [3]"
  shows "\<exists>b. normalize a mean std = Inr b \<and> shape b = p @ [3]"
  using assms by (simp add: normalize_def broadcast_vec_def bindE_def Let_def map_elems_def)

lemma normalize_empty:
  assumes "length mean = 3" and "shape a = [0]"
  shows "\<exists>e. normalize a mean std = Inl e"
  using assms by (simp add: normalize_def broadcast_vec_def bindE_def Let_def map_elems_def)

lemma np_transpose_3012:
  assumes "shape a = [t, h, w, c]"
  shows "\<exists>b. np_transpose a [3, 0, 1, 2] = Inr b \<and> shape b = [c, t, h, w]"
  using assms by (simp add: np_transpose_def)

lemma np_linspace_Inr:
  "np_linspace a b num = Inr ls \<longleftrightarrow> 0 \<le> num \<and> ls = map (linspace_at a b num) [0..<nat num]"
  by (auto simp: np_linspace_def)

lemma np_take_axis1_shape:
  assumes "np_take_axis1 a idxs = Inr b" and "shape a = c # t # rest"
  shows "shape b = c # length idxs # rest"
  using assms by (auto simp: np_take_axis1_def split: if_splits)

lemma np_take_axis1_succeeds:
  assumes "shape a = c # t # rest" and "\<forall>i\<in>set idxs. 0 \<le> i \<and> i < int t"
  shows "\<exists>b. np_take_axis1 a idxs = Inr b \<and> shape b = c # length idxs # rest
    \<and> (\<forall>j<length idxs. \<forall>ci r. elem b (ci # j # r) = elem a (ci # nat (idxs ! j) # r))"
proof -
  have "list_all (\<lambda>i. - int t \<le> i \<and> i < int t) idxs"
    using assms(2) by (auto simp: list_all_iff)
  moreover have "\<not> idxs ! j < 0" if "j < length idxs" for j
    using assms(2) that by (auto simp: all_set_conv_all_nth)
  ultimately show ?thesis
    using assms(1) by (simp add: np_take_axis1_def)
qed


lemma linspace_at_range:
  assumes "0 < t" and "i < nat num"
  shows "0 \<le> linspace_at 0 (real_of_int (int t - 1)) num i"
    and "linspace_at 0 (real_of_int (int t - 1)) num i \<le> real_of_int (int t - 1)"
proof -
  let ?v = "linspace_at 0 (real_of_int (int t - 1)) num i"
  have t1: "0 \<le> real_of_int (int t - 1)" using assms(1) by simp
  show "0 \<le> ?v" using t1 assms by (simp add: linspace_at_def)
  show "?v \<le> real_of_int (int t - 1)"
  proof (cases "num = 1")
    case True
    then show ?thesis using t1 by (simp add: linspace_at_def)
  next
    case False
    with assms(2) have n2: "2 \<le> num" by linarith
    then have d: "0 < real_of_int (num - 1)" by simp
    have "real i \<le> real_of_int (num - 1)" using assms(2) n2 by (simp add: nat_less_iff)
    then have "real i * real_of_int (int t - 1) \<le> real_of_int (num - 1) * real_of_int (int t - 1)"
      using t1 by (intro mult_right_mono)
    then have "real i * real_of_int (int t - 1) / real_of_int (num - 1) \<le> real_of_int (int t - 1)"
      using d by (simp add: pos_divide_le_eq mult.commute)
    then show ?thesis using False by (simp add: linspace_at_def)
  qed
qed

lemma linspace_index_range:
  assumes "0 < t" and "i < nat num"
  shows "0 \<le> py_int (linspace_at 0 (real_of_int (int t - 1)) num i)"
    and "py_int (linspace_at 0 (real_of_int (int t - 1)) num i) < int t"
proof -
  let ?v = "linspace_at 0 (real_of_int (int t - 1)) num i"
  have a: "0 \<le> ?v" and b: "?v \<le> real_of_int (int t - 1)"
    using assms by (rule linspace_at_range)+
  show "0 \<le> py_int ?v" using a by (simp add: py_int_def)
  have "\<lfloor>?v\<rfloor> \<le> \<lfloor>real_of_int (int t - 1)\<rfloor>" using b by (rule floor_mono)
  then have "\<lfloor>?v\<rfloor> \<le> int t - 1" by (simp only: floor_of_int)
  then show "py_int ?v < int t" using a by (simp add: py_int_def)
qed

lemma linspace_indices_in_range:
  assumes "0 \<le> num" and "num = 0 \<or> 0 < t"
  shows "\<forall>i\<in>set (map py_int (map (linspace_at 0 (real_of_int (int t - 1)) num) [0..<nat num])).
           0 \<le> i \<and> i < int t"
proof (cases "num = 0")
  case True
  then show ?thesis by simp
next
  case False
  with assms have "0 < t" by simp
  then show ?thesis using linspace_index_range [of t _ num] by auto
qed

lemma pack_pathway_output_shape:
  assumes "pack_pathway_output a alpha = Inr r" and "shape a = c # t # rest"
  shows "\<exists>slow. r = [slow, a] \<and> shape slow = c # nat (int t div alpha) # rest"
  using assms
  by (auto simp: pack_pathway_output_def bindE_eq_Inr np_linspace_Inr Let_def
      dest!: np_take_axis1_shape split: if_splits)


lemma pack_pathway_output_succeeds:
  assumes sh: "shape frames = c # t # rest" and alpha: "0 < alpha"
  shows "\<exists>slow. pack_pathway_output frames alpha = Inr [slow, frames]
    \<and> shape slow = c # nat (int t div alpha) # rest
    \<and> (\<forall>j<nat (int t div alpha).
          nat (py_int (linspace_at 0 (real_of_int (int t - 1)) (int t div alpha) j)) < t
          \<and> (\<forall>ci r. elem slow (ci # j # r)
                = elem frames
                    (ci # nat (py_int (linspace_at 0 (real_of_int (int t - 1)) (int t div alpha) j)) # r)))"
proof -
  let ?num = "int t div alpha"
  let ?idxs = "map py_int (map (linspace_at 0 (real_of_int (int t - 1)) ?num) [0..<nat ?num])"
  have num: "0 \<le> ?num" using alpha by (simp add: pos_imp_zdiv_nonneg_iff)
  have "?num = 0 \<or> 0 < t" by (cases t) simp_all
  with num have rng: "\<forall>i\<in>set ?idxs. 0 \<le> i \<and> i < int t"
    by (rule linspace_indices_in_range)
  obtain slow where take: "np_take_axis1 frames ?idxs = Inr slow"
    and shs: "shape slow = c # length ?idxs # rest"
    and el: "\<forall>j<length ?idxs. \<forall>ci r. elem slow (ci # j # r) = elem frames (ci # nat (?idxs ! j) # r)"
    using np_take_axis1_succeeds [OF sh rng] by blast
  have res: "pack_pathway_output frames alpha = Inr [slow, frames]"
    using alpha num take by (simp add: pack_pathway_output_def sh np_linspace_def bindE_def Let_def)
  have lt: "nat (py_int (linspace_at 0 (real_of_int (int t - 1)) ?num j)) < t" if "j < nat ?num" for j
  proof -
    from that num have "0 < t" by (cases t) simp_all
    from linspace_index_range [OF this that] show ?thesis by linarith
  qed
  show ?thesis
    using res shs el lt by (intro exI [of _ slow]) simp
qed

lemma mapE_all_succeed:
  assumes "\<forall>x\<in>set xs. \<exists>y. f x = Inr y \<and> P y"
  shows "\<exists>ys. mapE f xs = Inr ys \<and> length ys = length xs \<and> (\<forall>y\<in>set ys. P y)"
  using assms
proof (induction xs)
  case Nil
  then show ?case by simp
next
  case (Cons x xs)
  then obtain y ys where "f x = Inr y" "P y" "mapE f xs = Inr ys" "length ys = length xs"
    "\<forall>y\<in>set ys. P y" by auto
  then show ?case by simp
qed

lemma mapE_results:
  assumes "mapE f xs = Inr ys" and "y \<in> set ys"
  shows "\<exists>x\<in>set xs. f x = Inr y"
  using assms by (fastforce simp: mapE_Inr_iff list_all2_conv_all_nth in_set_conv_nth)

lemma mapE_length: "mapE f xs = Inr ys \<Longrightarrow> length ys = length xs"
  by (simp add: mapE_Inr_iff list_all2_lengthD)

lemma process_inputs_tail:
  assumes sh: "shape inputs3 = [t, s, s, 3]" and t: "0 < t" and nf: "0 \<le> num_frames"
    and mean: "length mean = 3" and std: "length std = 3"
  shows "\<exists>slow fast.
      bindE (normalize (map_elems (\<lambda>v. v / 255) (inputs3\<lparr>dtype := Float32\<rparr>)) mean std) (\<lambda>inputs4.
      bindE (np_transpose inputs4 [3, 0, 1, 2]) (\<lambda>inputs5.
      (case shape inputs5 of
         c # t # rest \<Rightarrow>
           bindE (np_linspace 0 (real_of_int (int t - 1)) num_frames) (\<lambda>ls.
           bindE (np_take_axis1 inputs5 (map py_int ls)) (\<lambda>inputs6.
           bindE (pack_pathway_output inputs6 4) (\<lambda>inputs7.
           Inr (map expand_dims0 inputs7))))
       | _ \<Rightarrow> Inl IndexError))) = Inr [slow, fast]
    \<and> shape fast = [1, 3, nat num_frames, s, s]
    \<and> shape slow = [1, 3, nat num_frames div 4, s, s]"
proof -
  let ?a = "map_elems (\<lambda>v. v / 255) (inputs3\<lparr>dtype := Float32\<rparr>)"
  have "shape ?a = [t, s, s] @ [3]" using sh by (simp add: map_elems_def)
  from normalize_colour [OF mean std this]
  obtain inputs4 where n: "normalize ?a mean std = Inr inputs4" and s4: "shape inputs4 = [t, s, s, 3]"
    by auto
  from np_transpose_3012 [OF s4]
  obtain inputs5 where tr: "np_transpose inputs4 [3, 0, 1, 2] = Inr inputs5"
    and s5: "shape inputs5 = [3, t, s, s]" by auto
  let ?idxs = "map py_int (map (linspace_at 0 (real_of_int (int t - 1)) num_frames) [0..<nat num_frames])"
  have ls: "np_linspace 0 (real_of_int (int t - 1)) num_frames
      = Inr (map (linspace_at 0 (real_of_int (int t - 1)) num_frames) [0..<nat num_frames])"
    using nf by (simp add: np_linspace_def)
  have rng: "\<forall>i\<in>set ?idxs. 0 \<le> i \<and> i < int t"
    using nf t by (intro linspace_indices_in_range) simp_all
  from np_take_axis1_succeeds [OF s5 rng]
  obtain inputs6 where tk: "np_take_axis1 inputs5 ?idxs = Inr inputs6"
    and s6: "shape inputs6 = [3, nat num_frames, s, s]" by auto
  from pack_pathway_output_succeeds [OF s6, of 4]
  obtain slow where pk: "pack_pathway_output inputs6 4 = Inr [slow, inputs6]"
    and ss: "shape slow = [3, nat (int (nat num_frames) div 4), s, s]" by auto
  have d: "nat (int (nat num_frames) div 4) = nat num_frames div 4"
    by (metis nat_int of_nat_numeral zdiv_int)
  have ss': "shape slow = [3, nat num_frames div 4, s, s]"
    using ss by (simp only: d)
  have "bindE (normalize ?a mean std) (\<lambda>inputs4.
      bindE (np_transpose inputs4 [3, 0, 1, 2]) (\<lambda>inputs5.
      (case shape inputs5 of
         c # t # rest \<Rightarrow>
           bindE (np_linspace 0 (real_of_int (int t - 1)) num_frames) (\<lambda>ls.
           bindE (np_take_axis1 inputs5 (map py_int ls)) (\<lambda>inputs6.
           bindE (pack_pathway_output inputs6 4) (\<lambda>inputs7.
           Inr (map expand_dims0 inputs7))))
       | _ \<Rightarrow> Inl IndexError))) = Inr (map expand_dims0 [slow, inputs6])"
    by (simp only: n bindE_simps tr s5 list.case ls tk pk)
  moreover have "shape (expand_dims0 inputs6) = [1, 3, nat num_frames, s, s]"
    by (simp add: expand_dims0_def s6)
  moreover have "shape (expand_dims0 slow) = [1, 3, nat num_frames div 4, s, s]"
    by (simp add: expand_dims0_def ss')
  ultimately show ?thesis by simp
qed


lemma process_inputs_succeeds:
  assumes frames: "frames \<noteq> []"
    and sides: "\<forall>f\<in>set frames. \<exists>h w. shape f = [h, w, 3] \<and> 0 < h \<and> 0 < w"
    and crop: "0 < crop_size" and nf: "0 \<le> num_frames"
    and mean: "length mean = 3" and std: "length std = 3"
  shows "\<exists>slow fast.
      process_inputs interp (map Some frames) num_frames crop_size mean std = Inr [slow, fast]
    \<and> shape fast = [1, 3, nat num_frames, nat crop_size, nat crop_size]
    \<and> shape slow = [1, 3, nat num_frames div 4, nat crop_size, nat crop_size]"
proof -
  let ?P = "\<lambda>g. \<exists>h' w'. shape g = [h', w', 3] \<and> crop_size \<le> int h' \<and> crop_size \<le> int w'"
  have "\<forall>x\<in>set (map Some frames). \<exists>g. scale_short_side interp crop_size x = Inr g \<and> ?P g"
    using sides crop scale_short_side_succeeds [of _ _ _ crop_size interp] by fastforce
  from mapE_all_succeed [OF this]
  obtain inputs1 where m1: "mapE (scale_short_side interp crop_size) (map Some frames) = Inr inputs1"
    and l1: "length inputs1 = length frames" and p1: "\<forall>g\<in>set inputs1. ?P g" by auto
  have "\<forall>g\<in>set inputs1. \<exists>k. center_crop crop_size g = Inr k
      \<and> shape k = [nat crop_size, nat crop_size, 3]"
    using p1 crop center_crop_succeeds [of _ _ _ crop_size] by fastforce
  from mapE_all_succeed [OF this]
  obtain inputs2 where m2: "mapE (center_crop crop_size) inputs1 = Inr inputs2"
    and l2: "length inputs2 = length inputs1"
    and p2: "\<forall>k\<in>set inputs2. shape k = [nat crop_size, nat crop_size, 3]" by auto
  have ne: "inputs2 \<noteq> []" using l1 l2 frames by auto
  from np_array_same_shape [OF ne p2]
  obtain inputs3 where a: "np_array inputs2 = Inr inputs3"
    and s3: "shape inputs3 = [length inputs2, nat crop_size, nat crop_size, 3]" by auto
  have t: "0 < length inputs2" using ne by simp
  from process_inputs_tail [OF s3 t nf mean std]
  obtain slow fast where tail:
    "bindE (normalize (map_elems (\<lambda>v. v / 255) (inputs3\<lparr>dtype := Float32\<rparr>)) mean std) (\<lambda>inputs4.
      bindE (np_transpose inputs4 [3, 0, 1, 2]) (\<lambda>inputs5.
      (case shape inputs5 of
         c # t # rest \<Rightarrow>
           bindE (np_linspace 0 (real_of_int (int t - 1)) num_frames) (\<lambda>ls.
           bindE (np_take_axis1 inputs5 (map py_int ls)) (\<lambda>inputs6.
           bindE (pack_pathway_output inputs6 4) (\<lambda>inputs7.
           Inr (map expand_dims0 inputs7))))
       | _ \<Rightarrow> Inl IndexError))) = Inr [slow, fast]"
    and sf: "shape fast = [1, 3, nat num_frames, nat crop_size, nat crop_size]"
    and ss: "shape slow = [1, 3, nat num_frames div 4, nat crop_size, nat crop_size]" by blast
  have "process_inputs interp (map Some frames) num_frames crop_size mean std = Inr [slow, fast]"
    unfolding process_inputs_def by (simp only: m1 m2 a bindE_simps tail)
  with sf ss show ?thesis by blast
qed

lemma scale_short_side_None: "scale_short_side interp sz None = Inl AttributeError"
  by (simp add: scale_short_side_def)

lemma process_inputs_shapes:
  assumes ok: "process_inputs interp frames num_frames crop_size mean std = Inr r"
    and colour: "\<forall>f. Some f \<in> set frames \<longrightarrow> (\<exists>h w. shape f = [h, w, 3])"
    and mean: "length mean = 3" and std: "length std = 3"
  shows "\<exists>slow fast. r = [slow, fast]
    \<and> shape fast = [1, 3, nat num_frames, nat crop_size, nat crop_size]
    \<and> shape slow = [1, 3, nat num_frames div 4, nat crop_size, nat crop_size]"
proof -
  let ?tail = "\<lambda>inputs3. bindE (normalize (map_elems (\<lambda>v. v / 255) (inputs3\<lparr>dtype := Float32\<rparr>)) mean std) (\<lambda>inputs4.
      bindE (np_transpose inputs4 [3, 0, 1, 2]) (\<lambda>inputs5.
      (case shape inputs5 of
         c # t # rest \<Rightarrow>
           bindE (np_linspace 0 (real_of_int (int t - 1)) num_frames) (\<lambda>ls.
           bindE (np_take_axis1 inputs5 (map py_int ls)) (\<lambda>inputs6.
           bindE (pack_pathway_output inputs6 4) (\<lambda>inputs7.
           Inr (map expand_dims0 inputs7))))
       | _ \<Rightarrow> Inl IndexError)))"
  from ok obtain inputs1 inputs2 inputs3
    where m1: "mapE (scale_short_side interp crop_size) frames = Inr inputs1"
      and m2: "mapE (center_crop crop_size) inputs1 = Inr inputs2"
      and a: "np_array inputs2 = Inr inputs3"
      and tl: "?tail inputs3 = Inr r"
    unfolding process_inputs_def bindE_eq_Inr by blast
  have p1: "\<exists>h w. shape g = [h, w, 3]" if "g \<in> set inputs1" for g
  proof -
    from mapE_results [OF m1 that] obtain x where x: "x \<in> set frames"
      and sx: "scale_short_side interp crop_size x = Inr g" by blast
    from sx obtain f where f: "x = Some f" by (cases x) (simp_all add: scale_short_side_None)
    with x colour obtain h w where "shape f = [h, w, 3]" by blast
    from scale_short_side_colour [OF this] sx f show ?thesis by blast
  qed
  have p2: "shape k = [nat crop_size, nat crop_size, 3]" if "k \<in> set inputs2" for k
  proof -
    from mapE_results [OF m2 that] obtain g where g: "g \<in> set inputs1"
      and cg: "center_crop crop_size g = Inr k" by blast
    from p1 [OF g] obtain h w where "shape g = [h, w, 3]" by blast
    from center_crop_colour [OF this cg] show ?thesis by simp
  qed
  show ?thesis
  proof (cases "inputs2 = []")
    case True
    with a have "shape inputs3 = [0]" by (auto simp: np_array_def)
    then have "shape (map_elems (\<lambda>v. v / 255) (inputs3\<lparr>dtype := Float32\<rparr>)) = [0]"
      by (simp add: map_elems_def)
    from normalize_empty [OF mean this, of std] obtain e where
      "normalize (map_elems (\<lambda>v. v / 255) (inputs3\<lparr>dtype := Float32\<rparr>)) mean std = Inl e" by blast
    with tl show ?thesis by (simp add: bindE_simps)
  next
    case False
    then have t: "0 < length inputs2" by simp
    from np_array_same_shape [OF False, of "[nat crop_size, nat crop_size, 3]"] p2 a
    have s3: "shape inputs3 = [length inputs2, nat crop_size, nat crop_size, 3]" by auto
    have nf: "0 \<le> num_frames"
    proof (rule ccontr)
      assume "\<not> 0 \<le> num_frames"
      then have neg: "num_frames < 0" by simp
      have "shape (map_elems (\<lambda>v. v / 255) (inputs3\<lparr>dtype := Float32\<rparr>))
          = [length inputs2, nat crop_size, nat crop_size] @ [3]"
        using s3 by (simp add: map_elems_def)
      from normalize_colour [OF mean std this]
      obtain inputs4 where n: "normalize (map_elems (\<lambda>v. v / 255) (inputs3\<lparr>dtype := Float32\<rparr>)) mean std = Inr inputs4"
        and s4: "shape inputs4 = [length inputs2, nat crop_size, nat crop_size, 3]" by auto
      from np_transpose_3012 [OF s4]
      obtain inputs5 where tr: "np_transpose inputs4 [3, 0, 1, 2] = Inr inputs5"
        and s5: "shape inputs5 = [3, length inputs2, nat crop_size, nat crop_size]" by auto
      have "np_linspace 0 (real_of_int (int (length inputs2) - 1)) num_frames = Inl ValueError"
        using neg by (simp add: np_linspace_def)
      then have "?tail inputs3 = Inl ValueError"
        by (simp only: n bindE_simps tr s5 list.case)
      with tl show False by simp
    qed
    from process_inputs_tail [OF s3 t nf mean std] tl show ?thesis by auto
  qed
qed

lemma collect_frames_short:
  assumes "int (length frames) + int (length video) < seq_length"
  shows "None \<in> set (collect_frames video frames seq_length)"
  using assms by (induction video arbitrary: frames) auto

lemma collect_frames_from_video:
  assumes "Some f \<in> set (collect_frames video frames seq_length)"
  shows "f \<in> set video \<or> Some f \<in> set frames"
  using assms
proof (induction video arbitrary: frames)
  case Nil
  then show ?case by (auto split: if_splits)
next
  case (Cons a video)
  show ?case
  proof (cases "int (length frames) < seq_length")
    case True
    with Cons.prems have "Some f \<in> set (collect_frames video (frames @ [Some a]) seq_length)"
      by simp
    from Cons.IH [OF this] show ?thesis by auto
  next
    case False
    with Cons.prems show ?thesis by simp
  qed
qed

lemma process_inputs_missing_frame:
  assumes "None \<in> set frames"
  shows "\<exists>e. process_inputs interp frames num_frames crop_size mean std = Inl e"
proof -
  from mapE_fails [of None frames "scale_short_side interp crop_size" AttributeError]
    assms scale_short_side_None [of interp crop_size]
  obtain e where "mapE (scale_short_side interp crop_size) frames = Inl e" by blast
  then show ?thesis by (simp add: process_inputs_def bindE_simps)
qed

text \<open>
  Claim C3. For a list of frames that is not empty, each a colour frame (height, width,
  3) with both sides at least \<open>crop_size\<close>, a positive \<open>crop_size\<close>, a \<open>num_frames\<close>
  that is not negative and three-channel statistics, \<open>process_inputs\<close> returns exactly two
  arrays: the slow pathway of shape \<open>(1, 3, num_frames // 4, crop_size, crop_size)\<close> and
  the fast pathway of shape \<open>(1, 3, num_frames, crop_size, crop_size)\<close>.
\<close>

theorem process_inputs_exact_shapes:
  assumes "frames \<noteq> []"
    and "\<forall>f\<in>set frames. \<exists>h w. shape f = [h, w, 3] \<and> crop_size \<le> int h \<and> crop_size \<le> int w"
    and "0 < crop_size" and "0 \<le> num_frames"
    and "length mean = 3" and "length std = 3"
  shows "\<exists>slow fast.
      process_inputs interp (map Some frames) num_frames crop_size mean std = Inr [slow, fast]
    \<and> shape fast = [1, 3, nat num_frames, nat crop_size, nat crop_size]
    \<and> shape slow = [1, 3, nat num_frames div 4, nat crop_size, nat crop_size]"
proof -
  have "\<forall>f\<in>set frames. \<exists>h w. shape f = [h, w, 3] \<and> 0 < h \<and> 0 < w"
    using assms(2,3) by fastforce
  with assms show ?thesis by (intro process_inputs_succeeds)
qed

theorem process_inputs_exact_shapes_witness:
  "\<exists>slow fast.
      process_inputs interp_zero (map Some (replicate 64 frame_360p)) 32 256
        [0.45, 0.45, 0.45] [0.225, 0.225, 0.225] = Inr [slow, fast]
    \<and> shape fast = [1, 3, 32, 256, 256] \<and> shape slow = [1, 3, 8, 256, 256]"
  using process_inputs_exact_shapes [of "replicate 64 frame_360p" 256 32
      "[0.45, 0.45, 0.45]" "[0.225, 0.225, 0.225]" interp_zero]
  by (simp add: frame_360p_def)

lemma np_round_error: "\<bar>real_of_int (np_round x) - x\<bar> \<le> 1 / 2"
  unfolding np_round_def Let_def by (auto simp: abs_if) linarith+

lemma float64_error: "\<bar>float64 x - x\<bar> \<le> \<bar>x\<bar> / 2 ^ 53"
proof (cases "x = 0")
  case True then show ?thesis by (simp add: float64_def)
next
  case False
  define e where "e = \<lfloor>log 2 \<bar>x\<bar>\<rfloor>"
  define q :: real where "q = 2 powr (real_of_int e - 52)"
  have qpos: "0 < q" by (simp add: q_def)
  have "\<lfloor>log 2 \<bar>x\<bar>\<rfloor> = e" by (simp add: e_def)
  then have lo: "2 powr real_of_int e \<le> \<bar>x\<bar>"
    using False by (subst (asm) floor_log_eq_powr_iff) auto
  have fx: "float64 x = real_of_int (np_round (x / q)) * q"
    using False by (simp add: float64_def Let_def q_def e_def)
  have "float64 x - x = (real_of_int (np_round (x / q)) - x / q) * q"
    using qpos by (simp add: fx algebra_simps)
  then have "\<bar>float64 x - x\<bar> = \<bar>real_of_int (np_round (x / q)) - x / q\<bar> * q"
    using qpos by (simp add: abs_mult)
  also have "\<dots> \<le> (1 / 2) * q"
    using np_round_error [of "x / q"] qpos by (intro mult_right_mono) auto
  also have "\<dots> = 2 powr real_of_int e / 2 ^ 53"
    by (simp add: q_def powr_diff)
  also have "\<dots> \<le> \<bar>x\<bar> / 2 ^ 53"
    using lo by (simp add: divide_right_mono)
  finally show ?thesis .
qed

lemma float64_zero: "float64 0 = 0"
  by (simp add: float64_def)

lemma float64_eval:
  assumes "2 ^ n \<le> x" and "x < 2 * 2 ^ n"
  shows "float64 x = real_of_int (np_round (x * 2 ^ 52 / 2 ^ n)) * 2 ^ n / 2 ^ 52"
proof -
  have pos: "0 < x" using assms(1) by (smt (verit) zero_less_power)
  have "\<lfloor>log 2 \<bar>x\<bar>\<rfloor> = int n"
    using pos assms by (subst floor_log_eq_powr_iff) (auto simp: powr_add powr_realpow)
  then show ?thesis
    using pos by (simp add: float64_def Let_def powr_diff powr_realpow)
qed

lemma float64_148: "float64 148 = 148"
  by (subst float64_eval [of 7]) (simp_all add: np_round_def)

lemma step149: "float64 (37 / 9) = 1157174904254919 / 281474976710656"
  by (subst float64_eval [of 2]) (simp_all add: np_round_def Let_def)

lemma prod149: "float64 (31243722414882813 / 281474976710656) = 7810930603720703 / 70368744177664"
  by (subst float64_eval [of 6]) (simp_all add: np_round_def Let_def)

lemma again149: "float64 (7810930603720703 / 70368744177664) = 7810930603720703 / 70368744177664"
  by (subst float64_eval [of 6]) (simp_all add: np_round_def Let_def)

lemma linspace_f64_149_27: "py_int (linspace_f64_at 0 148 37 27) = 110"
  by (simp add: linspace_f64_at_def Let_def float64_148 step149 prod149 again149 py_int_def)

lemma float64_rel:
  assumes "0 \<le> a" and "\<bar>a' - a\<bar> \<le> c * a" and "0 \<le> c" and "c \<le> 1"
  shows "\<bar>float64 a' - a\<bar> \<le> (c + 2 / 2 ^ 53) * a"
proof -
  have "\<bar>a'\<bar> \<le> a + c * a" using assms(1,2) by linarith
  also have "\<dots> \<le> 2 * a" using mult_right_mono [OF assms(4,1)] by simp
  finally have "\<bar>a'\<bar> / 2 ^ 53 \<le> 2 * a / 2 ^ 53" by (simp add: divide_right_mono)
  with float64_error [of a'] have "\<bar>float64 a' - a'\<bar> \<le> 2 * a / 2 ^ 53" by linarith
  moreover define d where "d = 2 * a / 2 ^ 53"
  moreover have "(c + 2 / 2 ^ 53) * a = c * a + d" by (simp add: d_def algebra_simps)
  ultimately show ?thesis using assms(2) by linarith
qed

lemma floor_near_quotient:
  fixes y :: real and a N :: int
  assumes N: "0 < N" and near: "\<bar>y - real_of_int a / real_of_int N\<bar> < 1 / real_of_int N"
  shows "\<lfloor>y\<rfloor> = a div N \<or> (N dvd a \<and> \<lfloor>y\<rfloor> = a div N - 1)"
proof -
  have Nr: "0 < real_of_int N" using N by simp
  have "y < real_of_int a / real_of_int N + 1 / real_of_int N" using near by linarith
  then have "y * real_of_int N < real_of_int a + 1"
    using Nr by (simp add: field_simps)
  moreover have "real_of_int \<lfloor>y\<rfloor> * real_of_int N \<le> y * real_of_int N"
    using Nr by (simp add: mult_right_mono)
  ultimately have "real_of_int (\<lfloor>y\<rfloor> * N) < real_of_int (a + 1)" by simp
  then have up: "\<lfloor>y\<rfloor> * N \<le> a" by linarith
  have "real_of_int a / real_of_int N - 1 / real_of_int N < y" using near by linarith
  then have "real_of_int a - 1 < y * real_of_int N"
    using Nr by (simp add: field_simps)
  moreover have "y * real_of_int N < (real_of_int \<lfloor>y\<rfloor> + 1) * real_of_int N"
    using Nr by (intro mult_strict_right_mono) linarith+
  ultimately have "real_of_int (a - 1) < real_of_int ((\<lfloor>y\<rfloor> + 1) * N)" by simp
  then have "a - 1 < (\<lfloor>y\<rfloor> + 1) * N" by (simp only: of_int_less_iff)
  then have lo: "a - N \<le> \<lfloor>y\<rfloor> * N" by (simp add: algebra_simps)
  have le: "\<lfloor>y\<rfloor> \<le> a div N"
    using up N by (metis div_mult_self_is_m zdiv_mono1 nonzero_mult_div_cancel_right less_irrefl)
  have ge: "a div N - 1 \<le> \<lfloor>y\<rfloor>"
  proof -
    have "(a - N) div N \<le> (\<lfloor>y\<rfloor> * N) div N" using lo N by (rule zdiv_mono1)
    moreover have "(a - N) div N = a div N - 1"
      using div_mult_self1 [of N a "- 1"] N by simp
    ultimately show ?thesis using N by simp
  qed
  show ?thesis
  proof (cases "\<lfloor>y\<rfloor> = a div N")
    case True then show ?thesis by simp
  next
    case False
    with le ge have eq: "\<lfloor>y\<rfloor> = a div N - 1" by linarith
    from lo eq have "a \<le> (a div N) * N" by (simp add: algebra_simps)
    moreover have "a div N * N + a mod N = a" by (rule div_mult_mod_eq)
    moreover have "0 \<le> a mod N" using N by simp
    ultimately have "a mod N = 0" by linarith
    then have "N dvd a" by (simp add: dvd_eq_mod_eq_0)
    with eq show ?thesis by simp
  qed
qed

lemma linspace_f64_near:
  fixes t n j :: nat
  assumes n: "2 \<le> n" and nt: "n \<le> t" and t: "t \<le> 2 ^ 24" and j: "j < n - 1"
  shows "\<bar>linspace_f64_at 0 (real_of_int (int t - 1)) (int n) j
          - real_of_int (int j * (int t - 1)) / real_of_int (int n - 1)\<bar>
         < 1 / real_of_int (int n - 1)"
proof -
  define u :: real where "u = 2 / 2 ^ 53"
  have rel: "\<bar>float64 a' - a\<bar> \<le> (c + u) * a"
    if "0 \<le> a" "\<bar>a' - a\<bar> \<le> c * a" "0 \<le> c" "c \<le> 1" for a a' c
    unfolding u_def using that by (rule float64_rel)
  have u0: "0 < u" and u1: "4 * u < 1" and u2: "4 * u * 2 ^ 24 < 1 / 2 ^ 24"
    by (simp_all add: u_def)
  define D :: real where "D = real_of_int (int t - 1)"
  define N :: real where "N = real_of_int (int n - 1)"
  have Dpos: "1 \<le> D" using n nt by (simp add: D_def)
  have Npos: "1 \<le> N" using n by (simp add: N_def)
  have Dle: "D \<le> 2 ^ 24" using t by (simp add: D_def)
  have Nle: "N \<le> 2 ^ 24" using t nt by (simp add: N_def)
  define delta where "delta = float64 (D - 0)"
  define step where "step = float64 (delta / N)"
  have "\<bar>delta - D\<bar> \<le> (0 + u) * D"
    unfolding delta_def using Dpos by (intro rel) auto
  then have e1: "\<bar>delta - D\<bar> \<le> u * D" by simp
  have "\<bar>delta / N - D / N\<bar> = \<bar>delta - D\<bar> / N"
    using Npos by (simp add: diff_divide_distrib [symmetric])
  also have "\<dots> \<le> (u * D) / N"
    using e1 Npos by (intro divide_right_mono) auto
  finally have "\<bar>delta / N - D / N\<bar> \<le> u * (D / N)" by simp
  then have e2: "\<bar>step - D / N\<bar> \<le> (u + u) * (D / N)"
    unfolding step_def using Dpos Npos u0 u1 by (intro rel) auto
  have sDN: "0 < D / N" using Dpos Npos by simp
  have "(u + u) * (D / N) < 1 * (D / N)"
    using sDN u0 u1 by (intro mult_strict_right_mono) auto
  with e2 have step_nz: "step \<noteq> 0" by auto
  define x where "x = real j * (D / N)"
  have xnn: "0 \<le> x" unfolding x_def using sDN by (intro mult_nonneg_nonneg) auto
  have "real j * step - x = real j * (step - D / N)"
    by (simp add: x_def right_diff_distrib)
  then have "\<bar>real j * step - x\<bar> = real j * \<bar>step - D / N\<bar>"
    by (simp add: abs_mult)
  also have "\<dots> \<le> real j * ((u + u) * (D / N))"
    using e2 by (intro mult_left_mono) auto
  also have "\<dots> = (2 * u) * x" by (simp add: x_def)
  finally have "\<bar>real j * step - x\<bar> \<le> (2 * u) * x" .
  then have "\<bar>float64 (real j * step) - x\<bar> \<le> (2 * u + u) * x"
    using xnn u0 u1 by (intro rel) auto
  then have "\<bar>float64 (real j * step) + 0 - x\<bar> \<le> (3 * u) * x" by simp
  then have "\<bar>float64 (float64 (real j * step) + 0) - x\<bar> \<le> (3 * u + u) * x"
    using xnn u0 u1 by (intro rel) auto
  then have e4: "\<bar>float64 (float64 (real j * step) + 0) - x\<bar> \<le> (4 * u) * x" by simp
  have val: "linspace_f64_at 0 (real_of_int (int t - 1)) (int n) j
      = float64 (float64 (real j * step) + 0)"
    using n j step_nz
    by (auto simp: linspace_f64_at_def Let_def step_def delta_def D_def N_def)
  have "real j \<le> N" using j by (simp add: N_def)
  then have "x \<le> N * (D / N)" unfolding x_def using sDN by (intro mult_right_mono) auto
  then have xD: "x \<le> D" using Npos by simp
  have "(4 * u) * x \<le> (4 * u) * 2 ^ 24" using xD Dle u0 by (intro mult_left_mono) auto
  also have "\<dots> < 1 / 2 ^ 24" using u2 .
  also have "\<dots> \<le> 1 / N" using Nle Npos by (intro frac_le) auto
  finally have "(4 * u) * x < 1 / N" .
  with e4 have "\<bar>float64 (float64 (real j * step) + 0) - x\<bar> < 1 / N" by linarith
  moreover have "x = real_of_int (int j * (int t - 1)) / real_of_int (int n - 1)"
    by (simp add: x_def D_def N_def)
  ultimately show ?thesis by (simp only: val N_def)
qed

lemma linspace_f64_index:
  fixes t n j :: nat
  assumes n: "2 \<le> n" and nt: "n \<le> t" and t: "t \<le> 2 ^ 24" and j: "j < n"
  shows "0 \<le> py_int (linspace_f64_at 0 (real_of_int (int t - 1)) (int n) j)
       \<and> (py_int (linspace_f64_at 0 (real_of_int (int t - 1)) (int n) j)
             = int j * (int t - 1) div (int n - 1)
          \<or> 0 < j \<and> (int n - 1) dvd int j * (int t - 1)
            \<and> py_int (linspace_f64_at 0 (real_of_int (int t - 1)) (int n) j)
                = int j * (int t - 1) div (int n - 1) - 1)"
proof (cases "j = n - 1")
  case True
  then have "linspace_f64_at 0 (real_of_int (int t - 1)) (int n) j = real_of_int (int t - 1)"
    using n by (simp add: linspace_f64_at_def Let_def of_nat_diff)
  moreover have "int j * (int t - 1) div (int n - 1) = int t - 1"
    using True n by (simp add: of_nat_diff)
  ultimately show ?thesis using n nt by (simp add: py_int_def)
next
  case False
  let ?y = "linspace_f64_at 0 (real_of_int (int t - 1)) (int n) j"
  from False j have j': "j < n - 1" by simp
  have near: "\<bar>?y - real_of_int (int j * (int t - 1)) / real_of_int (int n - 1)\<bar>
         < 1 / real_of_int (int n - 1)"
    using n nt t j' by (rule linspace_f64_near)
  have N: "0 < int n - 1" using n by simp
  have fl: "\<lfloor>?y\<rfloor> = int j * (int t - 1) div (int n - 1)
         \<or> (int n - 1) dvd int j * (int t - 1) \<and> \<lfloor>?y\<rfloor> = int j * (int t - 1) div (int n - 1) - 1"
    using N near by (rule floor_near_quotient)
  have nn: "0 \<le> ?y"
  proof (cases "j = 0")
    case True
    then show ?thesis using n by (simp add: linspace_f64_at_def Let_def float64_zero)
  next
    case False
    have "1 \<le> real_of_int (int j * (int t - 1)) / real_of_int (int n - 1)"
    proof -
      have "int n - 1 \<le> 1 * (int t - 1)" using nt by simp
      also have "\<dots> \<le> int j * (int t - 1)" using False n nt by (intro mult_right_mono) auto
      finally have "real_of_int (int n - 1) \<le> real_of_int (int j * (int t - 1))"
        by (simp only: of_int_le_iff)
      then show ?thesis using N by (simp add: field_simps)
    qed
    moreover have "1 / real_of_int (int n - 1) \<le> 1" using N by simp
    ultimately show ?thesis using near by linarith
  qed
  then have py: "py_int ?y = \<lfloor>?y\<rfloor>" and fnn: "0 \<le> \<lfloor>?y\<rfloor>" by (simp_all add: py_int_def)
  have "0 < j" if "\<lfloor>?y\<rfloor> = int j * (int t - 1) div (int n - 1) - 1"
    using that fnn by (cases "j = 0") simp_all
  with fl py fnn show ?thesis by auto
qed

lemma linspace_f64_single:
  "linspace_f64_at 0 stop 1 0 = 0"
  by (simp add: linspace_f64_at_def Let_def float64_zero)

lemma pack_pathway_output_f64_succeeds:
  assumes sh: "shape frames = c # t # rest" and alpha: "0 < alpha" and t: "t \<le> 2 ^ 24"
  shows "\<exists>slow. pack_pathway_output_f64 frames alpha = Inr [slow, frames]
    \<and> shape slow = c # nat (int t div alpha) # rest
    \<and> (\<forall>j<nat (int t div alpha). \<exists>k.
          int k = py_int (linspace_f64_at 0 (real_of_int (int t - 1)) (int t div alpha) j)
        \<and> k < t
        \<and> (\<forall>ci r. elem slow (ci # j # r) = elem frames (ci # k # r))
        \<and> (j = 0 \<longrightarrow> k = 0)
        \<and> (2 \<le> int t div alpha \<longrightarrow>
             (int j = int t div alpha - 1 \<longrightarrow> k = t - 1)
           \<and> (int k = int j * (int t - 1) div (int t div alpha - 1)
              \<or> 0 < j \<and> (int t div alpha - 1) dvd int j * (int t - 1)
                \<and> int k = int j * (int t - 1) div (int t div alpha - 1) - 1)))"
proof -
  let ?num = "int t div alpha"
  let ?v = "\<lambda>j. py_int (linspace_f64_at 0 (real_of_int (int t - 1)) ?num j)"
  let ?idxs = "map py_int (map (linspace_f64_at 0 (real_of_int (int t - 1)) ?num) [0..<nat ?num])"
  have num: "0 \<le> ?num" using alpha by (simp add: pos_imp_zdiv_nonneg_iff)
  have numt: "?num \<le> int t"
    using alpha zdiv_mono2 [of "int t" 1 alpha] by simp
  have idx: "0 \<le> ?v j \<and> ?v j < int t
      \<and> (j = 0 \<longrightarrow> ?v j = 0)
      \<and> (2 \<le> ?num \<longrightarrow>
             (int j = ?num - 1 \<longrightarrow> ?v j = int t - 1)
           \<and> (?v j = int j * (int t - 1) div (?num - 1)
              \<or> 0 < j \<and> (?num - 1) dvd int j * (int t - 1)
                \<and> ?v j = int j * (int t - 1) div (?num - 1) - 1))"
    if j: "j < nat ?num" for j
  proof (cases "?num = 1")
    case True
    with j have "j = 0" by simp
    moreover have "0 < t" using True by (cases t) simp_all
    ultimately show ?thesis using True by (simp add: linspace_f64_single py_int_def)
  next
    case False
    define n where "n = nat ?num"
    have nn: "int n = ?num" using num by (simp add: n_def)
    have n2: "2 \<le> n" using False j num by (simp add: n_def)
    have nt: "n \<le> t" using numt nn by linarith
    have jn: "j < n" using j by (simp add: n_def)
    note ix = linspace_f64_index [OF n2 nt t jn, unfolded nn]
    have N: "0 < ?num - 1" using n2 nn by linarith
    have "int j * (int t - 1) \<le> (?num - 1) * (int t - 1)"
      using jn nn nt n2 by (intro mult_right_mono) auto
    then have "int j * (int t - 1) div (?num - 1) \<le> (?num - 1) * (int t - 1) div (?num - 1)"
      using N by (intro zdiv_mono1) auto
    then have up: "int j * (int t - 1) div (?num - 1) \<le> int t - 1" using N by simp
    have last: "?v j = int t - 1" if "int j = ?num - 1"
      using that n2 nn by (simp add: linspace_f64_at_def Let_def py_int_def)
    have first: "?v j = 0" if "j = 0"
      using that ix by auto
    show ?thesis using ix up last first by auto
  qed
  then have rng: "\<forall>i\<in>set ?idxs. 0 \<le> i \<and> i < int t" by auto
  obtain slow where take: "np_take_axis1 frames ?idxs = Inr slow"
    and shs: "shape slow = c # length ?idxs # rest"
    and el: "\<forall>j<length ?idxs. \<forall>ci r. elem slow (ci # j # r) = elem frames (ci # nat (?idxs ! j) # r)"
    using np_take_axis1_succeeds [OF sh rng] by blast
  have res: "pack_pathway_output_f64 frames alpha = Inr [slow, frames]"
    using alpha num take by (simp add: pack_pathway_output_f64_def sh np_linspace_f64_def bindE_def Let_def)
  have "\<exists>k. int k = ?v j \<and> k < t
        \<and> (\<forall>ci r. elem slow (ci # j # r) = elem frames (ci # k # r))
        \<and> (j = 0 \<longrightarrow> k = 0)
        \<and> (2 \<le> ?num \<longrightarrow>
             (int j = ?num - 1 \<longrightarrow> k = t - 1)
           \<and> (int k = int j * (int t - 1) div (?num - 1)
              \<or> 0 < j \<and> (?num - 1) dvd int j * (int t - 1)
                \<and> int k = int j * (int t - 1) div (?num - 1) - 1))"
    if j: "j < nat ?num" for j
  proof -
    from idx [OF j] have nn: "0 \<le> ?v j" by simp
    have k: "int (nat (?v j)) = ?v j" using nn by simp
    have e: "\<forall>ci r. elem slow (ci # j # r) = elem frames (ci # nat (?v j) # r)"
      using el j by simp
    show ?thesis
      using idx [OF j] e k by (intro exI [of _ "nat (?v j)"]) auto
  qed
  then show ?thesis using res shs by (intro exI [of _ slow]) simp
qed

lemma ramp_shape: "shape ramp = 1 # 32 # [1, 1]"
  by (simp add: ramp_def)

lemma ramp_f64_indices:
  "\<exists>slow. pack_pathway_output_f64 ramp 4 = Inr [slow, ramp]
     \<and> elem slow [0, 3, 0, 0] = elem ramp [0, 13, 0, 0]"
proof -
  from pack_pathway_output_f64_succeeds [OF ramp_shape, of 4]
  obtain slow where r: "pack_pathway_output_f64 ramp 4 = Inr [slow, ramp]"
    and e: "\<forall>j<8. \<exists>k. int k = py_int (linspace_f64_at 0 31 8 j) \<and> k < 32
        \<and> (\<forall>ci r. elem slow (ci # j # r) = elem ramp (ci # k # r))
        \<and> (j = 0 \<longrightarrow> k = 0) \<and> (j = 7 \<longrightarrow> k = 31)
        \<and> (int k = int j * 31 div 7 \<or> 0 < j \<and> 7 dvd int j * 31 \<and> int k = int j * 31 div 7 - 1)"
    by auto
  from e [rule_format, of 3] obtain k
    where "\<forall>ci r. elem slow (ci # 3 # r) = elem ramp (ci # k # r)"
      and "int k = int 3 * 31 div 7 \<or> 7 dvd int 3 * 31 \<and> int k = int 3 * 31 div 7 - 1"
    by auto
  then have "k = 13" and "elem slow [0, 3, 0, 0] = elem ramp [0, k, 0, 0]" by simp_all
  then show ?thesis using r by simp
qed

lemma ramp149_shape: "shape ramp149 = 1 # 149 # [1, 1]"
  by (simp add: ramp149_def)

text \<open>
  Claim C5, as the code has it. For a positive \<open>alpha\<close> and at most \<open>2 ^ 24\<close> time steps
  the slow pathway has \<open>T // alpha\<close> time steps, and its step \<open>j\<close> is the frame of the fast
  pathway at index \<open>k = int(np.linspace(0, T - 1, T // alpha)[j])\<close>, computed in float64. The
  first index is 0 and, from two steps on, the last is \<open>T - 1\<close>; in between \<open>k\<close> is
  \<open>j * (T - 1) // (T // alpha - 1)\<close>, or one less where \<open>T // alpha - 1\<close> divides
  \<open>j * (T - 1)\<close> and the float64 product falls below the integer. The indices are evenly
  spaced from the first frame to the last, not \<open>j * alpha\<close>. The fast pathway is the input
  itself.
\<close>

theorem pack_pathway_output_f64_indices:
  assumes "shape frames = c # t # rest" and "0 < alpha" and "t \<le> 2 ^ 24"
  shows "\<exists>slow. pack_pathway_output_f64 frames alpha = Inr [slow, frames]
    \<and> shape slow = c # nat (int t div alpha) # rest
    \<and> (\<forall>j<nat (int t div alpha). \<exists>k.
          int k = py_int (linspace_f64_at 0 (real_of_int (int t - 1)) (int t div alpha) j)
        \<and> k < t
        \<and> (\<forall>ci r. elem slow (ci # j # r) = elem frames (ci # k # r))
        \<and> (j = 0 \<longrightarrow> k = 0)
        \<and> (2 \<le> int t div alpha \<longrightarrow>
             (int j = int t div alpha - 1 \<longrightarrow> k = t - 1)
           \<and> (int k = int j * (int t - 1) div (int t div alpha - 1)
              \<or> 0 < j \<and> (int t div alpha - 1) dvd int j * (int t - 1)
                \<and> int k = int j * (int t - 1) div (int t div alpha - 1) - 1)))"
  using assms by (rule pack_pathway_output_f64_succeeds)

text \<open>
  Of 149 frames with \<open>alpha = 4\<close> there are 37 steps, and step 27 is frame 110:
  \<open>27 * 148 / 36\<close> is 111, and float64 has \<open>110.99999999999999\<close>.
\<close>

theorem pack_pathway_output_f64_indices_witness:
  "\<exists>slow. pack_pathway_output_f64 ramp149 4 = Inr [slow, ramp149]
     \<and> shape slow = [1, 37, 1, 1]
     \<and> elem slow [0, 27, 0, 0] = elem ramp149 [0, 110, 0, 0]
     \<and> (27 * 148 div 36 :: int) = 111"
proof -
  from pack_pathway_output_f64_indices [OF ramp149_shape, of 4]
  obtain slow where r: "pack_pathway_output_f64 ramp149 4 = Inr [slow, ramp149]"
    and s: "shape slow = [1, 37, 1, 1]"
    and e: "\<forall>j<37. \<exists>k. int k = py_int (linspace_f64_at 0 148 37 j) \<and> k < 149
        \<and> (\<forall>ci r. elem slow (ci # j # r) = elem ramp149 (ci # k # r))
        \<and> (j = 0 \<longrightarrow> k = 0) \<and> (j = 36 \<longrightarrow> k = 148)
        \<and> (int k = int j * 148 div 36 \<or> 0 < j \<and> 36 dvd int j * 148 \<and> int k = int j * 148 div 36 - 1)"
    by auto
  from e [rule_format, of 27] obtain k
    where "int k = py_int (linspace_f64_at 0 148 37 27)"
      and "\<forall>ci r. elem slow (ci # 27 # r) = elem ramp149 (ci # k # r)"
    by auto
  then have "k = 110" and "elem slow [0, 27, 0, 0] = elem ramp149 [0, k, 0, 0]"
    by (simp_all add: linspace_f64_149_27)
  then show ?thesis using r s by simp
qed

text \<open>
  Claim C5 as stated fails: of 32 frames with \<open>alpha = 4\<close>, step 3 of the slow pathway
  is frame 13 of the fast pathway, not frame 12.
\<close>

theorem pack_pathway_output_f64_not_stride_alpha:
  "\<exists>slow. pack_pathway_output_f64 ramp 4 = Inr [slow, ramp]
     \<and> elem slow [0, 3, 0, 0] = 13 \<and> elem ramp [0, 3 * 4, 0, 0] = 12"
proof -
  from ramp_f64_indices
  obtain slow where "pack_pathway_output_f64 ramp 4 = Inr [slow, ramp]"
    and "elem slow [0, 3, 0, 0] = elem ramp [0, 13, 0, 0]"
    by blast
  moreover have "elem ramp [0, 13, 0, 0] = 13" and "elem ramp [0, 3 * 4, 0, 0] = 12"
    by (simp_all add: ramp_def)
  ultimately show ?thesis by auto
qed

lemma collect_frames_short_eq:
  assumes "int (length frames) + int (length video) < seq_length"
  shows "collect_frames video frames seq_length = frames @ map Some video @ [None]"
  using assms by (induction video arbitrary: frames) auto

lemma mapE_first_error:
  assumes "\<forall>x\<in>set xs. \<exists>y. f x = Inr y" and "f z = Inl e"
  shows "mapE f (xs @ z # zs) = Inl e"
  using assms by (induction xs) auto

lemma run_inference_process_fails:
  assumes "process_inputs interp (collect_frames video [] (num_frames * rate)) num_frames crop_size
      mean std = Inl e"
  shows "run_inference argsort interp model video top_k id_to_label_mapping num_frames rate crop_size
      mean std = Inl e"
  using assms by (simp add: run_inference_def bindE_simps)

lemma short_video_attribute_error:
  assumes short: "int (length video) < num_frames * rate"
    and sides: "\<forall>f\<in>set video. \<exists>h w. shape f = [h, w, 3] \<and> 0 < h \<and> 0 < w"
    and crop: "0 < crop_size"
  shows "process_inputs interp (collect_frames video [] (num_frames * rate)) num_frames crop_size
      mean std = Inl AttributeError"
proof -
  have c: "collect_frames video [] (num_frames * rate) = map Some video @ [None]"
    using short collect_frames_short_eq [of "[]" video "num_frames * rate"] by simp
  have "\<forall>x\<in>set (map Some video). \<exists>y. scale_short_side interp crop_size x = Inr y"
    using sides crop scale_short_side_succeeds [of _ _ _ crop_size interp] by fastforce
  from mapE_first_error [OF this scale_short_side_None]
  have "mapE (scale_short_side interp crop_size) (map Some video @ [None]) = Inl AttributeError" .
  then show ?thesis by (simp add: c process_inputs_def bindE_simps)
qed

text \<open>
  Claim C8. For a video of colour frames and three-channel statistics, the preprocessing
  of \<open>run_inference\<close> either raises or returns the two pathways with exactly the target
  shapes. A video with fewer than \<open>num_frames * sampling_rate\<close> readable frames makes it
  raise, and \<open>run_inference\<close> with it: the loop appends the \<open>None\<close> of the failed read and
  \<open>scale_short_side\<close> raises on its \<open>.shape\<close>, an \<open>AttributeError\<close> when the frames before
  it can be scaled. No tensor of another shape is returned.
\<close>

theorem preprocessing_exact_or_fails:
  assumes colour: "\<forall>f\<in>set video. \<exists>h w. shape f = [h, w, 3]"
    and mean: "length mean = 3" and std: "length std = 3"
  shows "((\<exists>e. process_inputs interp (collect_frames video [] (num_frames * rate)) num_frames
             crop_size mean std = Inl e)
        \<or> (\<exists>slow fast.
             process_inputs interp (collect_frames video [] (num_frames * rate)) num_frames
               crop_size mean std = Inr [slow, fast]
           \<and> shape fast = [1, 3, nat num_frames, nat crop_size, nat crop_size]
           \<and> shape slow = [1, 3, nat num_frames div 4, nat crop_size, nat crop_size]))
    \<and> (int (length video) < num_frames * rate \<longrightarrow>
          (\<exists>e. process_inputs interp (collect_frames video [] (num_frames * rate)) num_frames
             crop_size mean std = Inl e
           \<and> run_inference argsort interp model video top_k id_to_label_mapping num_frames rate
               crop_size mean std = Inl e))
    \<and> (int (length video) < num_frames * rate \<and> 0 < crop_size
          \<and> (\<forall>f\<in>set video. 0 < shape f ! 0 \<and> 0 < shape f ! 1) \<longrightarrow>
          run_inference argsort interp model video top_k id_to_label_mapping num_frames rate
            crop_size mean std = Inl AttributeError)"
proof (intro conjI impI)
  let ?frames = "collect_frames video [] (num_frames * rate)"
  let ?r = "process_inputs interp ?frames num_frames crop_size mean std"
  have col: "\<forall>f. Some f \<in> set ?frames \<longrightarrow> (\<exists>h w. shape f = [h, w, 3])"
    using colour collect_frames_from_video [of _ video "[]" "num_frames * rate"] by auto
  show "(\<exists>e. ?r = Inl e) \<or> (\<exists>slow fast. ?r = Inr [slow, fast]
           \<and> shape fast = [1, 3, nat num_frames, nat crop_size, nat crop_size]
           \<and> shape slow = [1, 3, nat num_frames div 4, nat crop_size, nat crop_size])"
  proof (cases ?r)
    case (Inl e)
    then show ?thesis by blast
  next
    case (Inr r)
    from process_inputs_shapes [OF Inr col mean std] Inr show ?thesis by auto
  qed
next
  assume short: "int (length video) < num_frames * rate"
  then have "None \<in> set (collect_frames video [] (num_frames * rate))"
    by (intro collect_frames_short) simp
  from process_inputs_missing_frame [OF this]
  obtain e where "process_inputs interp (collect_frames video [] (num_frames * rate)) num_frames
      crop_size mean std = Inl e" by blast
  with run_inference_process_fails [OF this]
  show "\<exists>e. process_inputs interp (collect_frames video [] (num_frames * rate)) num_frames
             crop_size mean std = Inl e
           \<and> run_inference argsort interp model video top_k id_to_label_mapping num_frames rate
               crop_size mean std = Inl e" by blast
next
  assume a: "int (length video) < num_frames * rate \<and> 0 < crop_size
      \<and> (\<forall>f\<in>set video. 0 < shape f ! 0 \<and> 0 < shape f ! 1)"
  have "\<forall>f\<in>set video. \<exists>h w. shape f = [h, w, 3] \<and> 0 < h \<and> 0 < w"
    using colour a by fastforce
  with a show "run_inference argsort interp model video top_k id_to_label_mapping num_frames rate
            crop_size mean std = Inl AttributeError"
    by (intro run_inference_process_fails short_video_attribute_error) simp_all
qed

theorem preprocessing_exact_or_fails_witness:
  "run_inference argsort_stable interp_zero (CompiledModel flat_scores)
     [frame_small, frame_small, frame_small] 5 six_classnames 2 2 2
     [0.45, 0.45, 0.45] [0.225, 0.225, 0.225] = Inl AttributeError"
  using preprocessing_exact_or_fails [of "[frame_small, frame_small, frame_small]"
      "[0.45, 0.45, 0.45]" "[0.225, 0.225, 0.225]" interp_zero 2 2 2 argsort_stable
      "CompiledModel flat_scores" 5 six_classnames]
  by (simp add: frame_small_def)

section \<open>Theorems: SlowFast inference\<close>

lemma is_argsort_length: "is_argsort keys perm \<Longrightarrow> length perm = length keys"
  unfolding is_argsort_def by (metis card_atLeastLessThan diff_zero distinct_card)

lemma argsort_stable_valid: "is_argsort keys (argsort_stable keys)"
  by (simp add: is_argsort_def argsort_stable_def)

lemma softmax_rows: "length (softmax x) = length x"
  by (simp add: softmax_def Let_def)

lemma pred_class_names_length:
  assumes ret: "pred_class_names argsort id_to_label_mapping predictions = Inr labels"
    and len: "\<forall>keys. length (argsort keys) = length keys"
    and rows: "\<forall>row\<in>set predictions. 5 \<le> length row"
  shows "length labels = 5"
proof (cases predictions)
  case Nil
  with ret show ?thesis by (simp add: pred_class_names_def softmax_def)
next
  case (Cons row rest)
  let ?total = "\<Sum>r\<leftarrow>predictions. \<Sum>v\<leftarrow>r. exp v"
  let ?keys = "map (\<lambda>v. - 1 * v) (map (\<lambda>v. exp v / ?total) row)"
  from ret Cons have m: "mapE (\<lambda>i. case id_to_label_mapping (int i) of
                          None \<Rightarrow> Inl KeyError
                        | Some name \<Rightarrow> Inr name) (take 5 (argsort ?keys)) = Inr labels"
    by (simp add: pred_class_names_def softmax_def Let_def)
  have "5 \<le> length row" using rows Cons by simp
  then have "length (take 5 (argsort ?keys)) = 5" using len by simp
  with mapE_length [OF m] show ?thesis by simp
qed

text \<open>
  Claim C9. \<open>run_inference\<close> never reads \<open>top_k\<close>: what it returns for one value it
  returns for every other. When it returns, with a network of at least five classes and
  an \<open>argsort\<close> that gives one index per class, the list has exactly 5 labels.
\<close>

theorem run_inference_ignores_top_k:
  assumes ret: "run_inference argsort interp model video top_k id_to_label_mapping num_frames rate
      crop_size mean std = Inr labels"
    and len: "\<forall>keys. length (argsort keys) = length keys"
    and rows: "\<forall>inputs. \<forall>row\<in>set (invoke_model model inputs). 5 \<le> length row"
  shows "length labels = 5
    \<and> (\<forall>top_k'. run_inference argsort interp model video top_k' id_to_label_mapping num_frames
          rate crop_size mean std = Inr labels)"
proof
  from ret obtain inputs where
    "pred_class_names argsort id_to_label_mapping (invoke_model model inputs) = Inr labels"
    by (auto simp: run_inference_def bindE_eq_Inr Let_def)
  from pred_class_names_length [OF this len] rows show "length labels = 5" by blast
  show "\<forall>top_k'. run_inference argsort interp model video top_k' id_to_label_mapping num_frames
          rate crop_size mean std = Inr labels"
    using ret by (simp add: run_inference_def)
qed

lemma flat_softmax: "softmax [[0, 0, 0, 0, 0, 0]] = [[1/6, 1/6, 1/6, 1/6, 1/6, 1/6]]"
  by (simp add: softmax_def)

lemma stable_flat: "argsort_stable [- (1/6), - (1/6), - (1/6), - (1/6), - (1/6), - (1/6)] = [0, 1, 2, 3, 4, 5]"
  by (simp add: argsort_stable_def upt_rec)

lemma flat_names_stable:
  "pred_class_names argsort_stable six_classnames [[0, 0, 0, 0, 0, 0]]
     = Inr [''abseiling'', ''air drumming'', ''answering questions'', ''applauding'', ''applying cream'']"
  by (simp add: pred_class_names_def flat_softmax stable_flat six_classnames_def)

lemma collect_four:
  "collect_frames [frame_small, frame_small, frame_small, frame_small] [] 4
     = map Some [frame_small, frame_small, frame_small, frame_small]"
  by simp

lemma run_flat:
  "run_inference argsort_stable interp_zero (CompiledModel flat_scores)
     [frame_small, frame_small, frame_small, frame_small] k six_classnames 2 2 2
     [0.45, 0.45, 0.45] [0.225, 0.225, 0.225]
   = Inr [''abseiling'', ''air drumming'', ''answering questions'', ''applauding'', ''applying cream'']"
proof -
  from process_inputs_succeeds [of "[frame_small, frame_small, frame_small, frame_small]" 2 2
      "[0.45, 0.45, 0.45]" "[0.225, 0.225, 0.225]" interp_zero]
  obtain slow fast where "process_inputs interp_zero
      (map Some [frame_small, frame_small, frame_small, frame_small]) 2 2
      [0.45, 0.45, 0.45] [0.225, 0.225, 0.225] = Inr [slow, fast]"
    by (auto simp: frame_small_def)
  then show ?thesis
    unfolding run_inference_def Let_def
    by (simp only: mult_2 numeral_Bit0 [symmetric] collect_four)
       (simp add: bindE_simps invoke_model_def flat_scores_def flat_names_stable)
qed

theorem run_inference_ignores_top_k_witness:
  "run_inference argsort_stable interp_zero (CompiledModel flat_scores)
     [frame_small, frame_small, frame_small, frame_small] 1 six_classnames 2 2 2
     [0.45, 0.45, 0.45] [0.225, 0.225, 0.225]
   = Inr [''abseiling'', ''air drumming'', ''answering questions'', ''applauding'', ''applying cream'']
   \<and> length [''abseiling'', ''air drumming'', ''answering questions'', ''applauding'', ''applying cream''] = 5
   \<and> run_inference argsort_stable interp_zero (CompiledModel flat_scores)
     [frame_small, frame_small, frame_small, frame_small] 400 six_classnames 2 2 2
     [0.45, 0.45, 0.45] [0.225, 0.225, 0.225]
   = Inr [''abseiling'', ''air drumming'', ''answering questions'', ''applauding'', ''applying cream'']"
proof -
  have len: "\<forall>keys. length (argsort_stable keys) = length keys"
    by (simp add: argsort_stable_def)
  have rows: "\<forall>inputs. \<forall>row\<in>set (invoke_model (CompiledModel flat_scores) inputs). 5 \<le> length row"
    by (simp add: invoke_model_def flat_scores_def)
  from run_inference_ignores_top_k [OF run_flat [of 1] len rows]
  show ?thesis using run_flat [of 1] by simp
qed











































text \<open>
  The two kinds of model go through the same preprocessing and the same last lines: with
  one score function behind both, \<open>run_inference\<close> returns the same for either.
\<close>

lemma run_inference_either_model:
  "run_inference argsort interp (CompiledModel f) video top_k id_to_label_mapping num_frames rate
     crop_size mean std
   = run_inference argsort interp (TorchModel f) video top_k id_to_label_mapping num_frames rate
     crop_size mean std"
  by (simp add: run_inference_def invoke_model_def)

end
